theory Spec2Isabelle
  imports Main "HOL-Library.Sublist"
begin

section \<open>Python strings\<close>

text \<open>
  A Python \<^verbatim>\<open>str\<close> is a sequence of Unicode code points, so a string is modelled as the
  list of its code points. ASCII literals of the source are written through \<open>ascii\<close>; the
  Cyrillic literals are written out as code points.
\<close>

type_synonym ustring = "nat list"

definition ascii :: "string \<Rightarrow> ustring" where
  "ascii s = map of_char s"

text \<open>
  \<^verbatim>\<open>str.isspace\<close>, which is also the class \<^verbatim>\<open>\s\<close> of \<^verbatim>\<open>re\<close> on \<^verbatim>\<open>str\<close> patterns and the set
  that \<^verbatim>\<open>str.strip()\<close> removes: U+0009..U+000D, U+001C..U+0020, U+0085, U+00A0, U+1680,
  U+2000..U+200A, U+2028, U+2029, U+202F, U+205F, U+3000.
\<close>

definition is_space :: "nat \<Rightarrow> bool" where
  "is_space c =
     ((9 \<le> c \<and> c \<le> 13) \<or> (28 \<le> c \<and> c \<le> 32) \<or> c = 133 \<or> c = 160 \<or> c = 5760 \<or>
      (8192 \<le> c \<and> c \<le> 8202) \<or> c = 8232 \<or> c = 8233 \<or> c = 8239 \<or> c = 8287 \<or>
      c = 12288)"

text \<open>\<^verbatim>\<open>sub in s\<close> on strings: \<open>sub\<close> occurs in \<open>s\<close> as a contiguous block.\<close>

fun py_in :: "ustring \<Rightarrow> ustring \<Rightarrow> bool" where
  "py_in sub [] = (sub = [])"
| "py_in sub (c # cs) = (prefix sub (c # cs) \<or> py_in sub cs)"

text \<open>
  \<^verbatim>\<open>s.replace(old, new)\<close>: every non-overlapping occurrence of \<open>old\<close>, found from the left,
  is replaced. With an empty \<open>old\<close> Python puts \<open>new\<close> before every character and at the end.
\<close>

function str_replace :: "ustring \<Rightarrow> ustring \<Rightarrow> ustring \<Rightarrow> ustring" where
  "str_replace old new [] = (if old = [] then new else [])"
| "str_replace old new (c # cs) =
     (if old = [] then new @ c # str_replace old new cs
      else if prefix old (c # cs) then new @ str_replace old new (drop (length old) (c # cs))
      else c # str_replace old new cs)"
  by pat_completeness auto
termination
  by (relation "measure (\<lambda>(old, new, s). length s)") auto

text \<open>\<^verbatim>\<open>s.strip()\<close>: leading and trailing whitespace removed.\<close>

definition strip :: "ustring \<Rightarrow> ustring" where
  "strip s = rev (dropWhile is_space (rev (dropWhile is_space s)))"

section \<open>The text normalizer\<close>

text \<open>
  \<^verbatim>\<open>re.sub(r"http\S+", " ", s)\<close>. The pattern matches at a position when the text there is
  \<^verbatim>\<open>http\<close> followed by at least one non-whitespace character; the match is greedy, so it
  runs to the next whitespace character or to the end. The scan goes on after the match.
\<close>

definition HTTP :: ustring where
  "HTTP = [104, 116, 116, 112]"

definition url_at :: "ustring \<Rightarrow> bool" where
  "url_at s = (prefix HTTP s \<and> (case drop 4 s of [] \<Rightarrow> False | d # _ \<Rightarrow> \<not> is_space d))"

function sub_urls :: "ustring \<Rightarrow> ustring" where
  "sub_urls [] = []"
| "sub_urls (c # cs) =
     (if url_at (c # cs)
      then 32 # sub_urls (dropWhile (\<lambda>d. \<not> is_space d) (drop 4 (c # cs)))
      else c # sub_urls cs)"
  by pat_completeness auto
termination
  by (relation "measure length") (auto intro: le_trans [OF length_dropWhile_le] simp: less_Suc_eq_le)

text \<open>\<^verbatim>\<open>re.sub(r"\s+", " ", s)\<close>: every maximal run of whitespace becomes one space.\<close>

function sub_spaces :: "ustring \<Rightarrow> ustring" where
  "sub_spaces [] = []"
| "sub_spaces (c # cs) =
     (if is_space c then 32 # sub_spaces (dropWhile is_space cs) else c # sub_spaces cs)"
  by pat_completeness auto
termination
  by (relation "measure length") (auto intro: le_trans [OF length_dropWhile_le] simp: less_Suc_eq_le)

text \<open>
  The placeholder of an attached photo: the Russian for "attach a photo:", two words with one
  space between them and a colon at the end, as code points.
\<close>

definition PHOTO_PHRASE :: ustring where
  "PHOTO_PHRASE = [1055, 1088, 1080, 1082, 1088, 1077, 1087, 1080, 1090, 1077, 32,
                   1092, 1086, 1090, 1086, 58]"

definition normalize_resident_request_string :: "ustring \<Rightarrow> ustring" where
  "normalize_resident_request_string query =
     (let removed_line_breaks_query = str_replace [10] [32] query;
          removed_photos_query = str_replace PHOTO_PHRASE [32] removed_line_breaks_query;
          removed_urls_query = sub_urls removed_photos_query;
          fixed_spaces_query = sub_spaces removed_urls_query
      in fixed_spaces_query)"

text \<open>Some position of the string starts a match of \<^verbatim>\<open>http\S+\<close>.\<close>

fun has_url :: "ustring \<Rightarrow> bool" where
  "has_url [] = False"
| "has_url (c # cs) = (url_at (c # cs) \<or> has_url cs)"

section \<open>Values and formatting\<close>

text \<open>\<^verbatim>\<open>str(n)\<close> of an integer, as f-strings print it.\<close>

function str_nat :: "nat \<Rightarrow> ustring" where
  "str_nat n = (if n < 10 then [48 + n] else str_nat (n div 10) @ [48 + n mod 10])"
  by pat_completeness auto
termination
  by (relation "measure id") auto

declare str_nat.simps [simp del]

definition str_int :: "int \<Rightarrow> ustring" where
  "str_int i = (if i < 0 then 45 # str_nat (nat (- i)) else str_nat (nat i))"

text \<open>\<^verbatim>\<open>", ".join(...)\<close> over printed integers, and \<^verbatim>\<open>str\<close> of a list of integers or of \<^verbatim>\<open>None\<close>.\<close>

fun join_ints :: "int list \<Rightarrow> ustring" where
  "join_ints [] = []"
| "join_ints [i] = str_int i"
| "join_ints (i # j # js) = str_int i @ ascii '', '' @ join_ints (j # js)"

fun str_opt_int :: "int option \<Rightarrow> ustring" where
  "str_opt_int None = ascii ''None''"
| "str_opt_int (Some i) = str_int i"

fun str_opt_int_list :: "int list option \<Rightarrow> ustring" where
  "str_opt_int_list None = ascii ''None''"
| "str_opt_int_list (Some ids) = ascii ''['' @ join_ints ids @ ascii '']''"

text \<open>Parsed JSON, and the dictionaries the source builds for request bodies.\<close>

datatype json =
    JNull
  | JBool bool
  | JInt int
  | JStr ustring
  | JList "json list"
  | JObj "(ustring \<times> json) list"

section \<open>Exceptions\<close>

text \<open>
  \<open>HTTPException status_code detail\<close> is FastAPI's exception; \<open>Exception msg\<close> stands for any
  other subclass of \<^verbatim>\<open>Exception\<close>, with \<open>msg\<close> what \<^verbatim>\<open>str(error)\<close> gives. The rate-limit
  error of the model provider is not among them: it is an outcome of the chain call below.
\<close>

datatype exn = HTTPException nat ustring | Exception ustring

section \<open>Data model\<close>

text \<open>
  Modelled from the spec: the schemas (the \<^verbatim>\<open>scheme.order_classification\<close> package) are not
  among the sources. The records below have the fields that the source reads and writes. Of
  an order's details only the form fields of the service and the summary fields of the order
  are read; a field's value may be missing. Identifiers are integers, as the identifier of a
  responsible unit is in the spec, so that \<^verbatim>\<open>int(uds_data.user_id)\<close> is the identity. The
  config's \<^verbatim>\<open>user_id\<close> and the unit's \<^verbatim>\<open>user_id\<close> are two fields of the source with one name;
  the unit's is \<open>uds_user_id\<close> here, and the record's \<^verbatim>\<open>id\<close> is \<open>record_id\<close>.
\<close>

record order_form =
  form_type :: ustring
  form_title :: ustring
  form_value :: "ustring option"

record summary =
  summary_title :: ustring
  summary_value :: "ustring option"

record order_details =
  service_orderForm :: "order_form list"
  order_summary :: "summary list"

record order_classification_request =
  alertId :: int
  alertTypeId :: int
  timestamp :: int
  orderId :: int
  orderStatusId :: int

record order_classification_config =
  user_id :: int
  is_use_emergency_classification :: bool
  is_use_order_updating :: bool
  emergency_prompt :: ustring

record uds =
  uds_user_id :: int
  address_list :: "ustring list"

record order_classification_record =
  record_id :: "int option"
  alert_id :: int
  alert_type_id :: int
  alert_timestamp :: int
  order_id :: int
  order_status_id :: int
  order_details :: "order_details option"
  order_query :: "ustring option"
  order_address :: "ustring option"
  order_normalized_query :: "ustring option"
  order_emergency :: "ustring option"
  is_emergency :: "bool option"
  uds_id :: "ustring option"
  order_update_request :: "json option"
  order_update_response :: "json option"
  is_error :: bool
  comment :: "ustring option"

section \<open>The outside world\<close>

text \<open>
  What the source reads of a \<^verbatim>\<open>requests\<close> response: \<^verbatim>\<open>ok\<close>, \<^verbatim>\<open>status_code\<close>, \<^verbatim>\<open>text\<close> and the
  result of \<^verbatim>\<open>json()\<close>, which is the parsed body or the message of the exception it raises.
  A request is answered by a response, or the call itself raises (no connection, a timeout).
\<close>

record response =
  ok :: bool
  status_code :: nat
  response_text :: ustring
  response_json :: "ustring + json"

datatype reply = Raises ustring | Response response

text \<open>
  One attempt of the engine builds the chain and runs it on the query: it gives a label,
  raises the provider's \<^verbatim>\<open>RateLimitError\<close>, or raises another exception.
\<close>

datatype chain_outcome = Answer ustring | RateLimitError | Fails exn

text \<open>
  The effects of a run, in the order in which they happen: the requests to the
  order-management system (with the token sent as \<^verbatim>\<open>Authorization\<close> and the JSON body), the
  calls of the chain with prompt, client and query, the waits in seconds, and the write to the
  history store. Log lines are left out.
\<close>

datatype event =
    POST_auth
  | GET_order_info int json
  | PUT_order_status int json json
  | POST_order_comments json json
  | Chain_run ustring ustring ustring
  | Sleep nat
  | Save_record ustring order_classification_record

text \<open>
  Everything the source takes from outside the repository's files at hand is a field of the
  environment, and the theorems hold for every environment.
  \<^item> Library functions whose tables are not transcribed: \<^verbatim>\<open>str.lower\<close>; \<^verbatim>\<open>str()\<close> of parsed JSON
    inside an f-string; the message of the \<^verbatim>\<open>TypeError\<close> that subscripting a JSON value other
    than an object raises; the validation \<^verbatim>\<open>OrderDetails(**response_data)\<close>, which gives the
    details or the message of its exception.
  \<^item> Constants of modules that are not among the sources: the list of responsible units, the
    members of the enumerations of statuses, alert types, field types and titles, and the id
    of the default config's user.
  \<^item> The interpreter: the number of nested calls of the engine that the stack still allows,
    and the message of the \<^verbatim>\<open>RecursionError\<close> raised beyond it.
  \<^item> The other systems: the config repository, the replies of the order-management system
    (to the \<open>n\<close>-th authentication of the trace, to the lookup of an order, to the update of
    its status, to a chat message) and the outcome of the \<open>n\<close>-th call of the chain.
\<close>

record env =
  lower :: "ustring \<Rightarrow> ustring"
  py_str :: "json \<Rightarrow> ustring"
  subscript_error :: "json \<Rightarrow> ustring"
  parse_order_details :: "json \<Rightarrow> ustring + order_details"
  RESPONSIBLE_UDS_LIST :: "uds list"
  PENDING :: int
  IN_PROGRESS :: int
  NEW_ORDER :: int
  TEXT :: ustring
  COMMENT :: ustring
  OBJECT :: ustring
  DEFAULT_CONFIG_USER_ID :: int
  recursion_limit :: nat
  recursion_error :: ustring
  get_default_config :: "ustring \<Rightarrow> order_classification_config option"
  auth_reply :: "nat \<Rightarrow> reply"
  order_info_reply :: "int \<Rightarrow> reply"
  order_status_reply :: "int \<Rightarrow> json \<Rightarrow> reply"
  order_comments_reply :: "json \<Rightarrow> reply"
  chain_run :: "nat \<Rightarrow> ustring \<Rightarrow> ustring \<Rightarrow> ustring \<Rightarrow> chain_outcome"

text \<open>
  The state that a run changes: the rows of the history store, each with its tenant, and the
  trace of effects so far.
\<close>

record state =
  history :: "(ustring \<times> order_classification_record) list"
  trace :: "event list"

definition emit :: "event \<Rightarrow> state \<Rightarrow> state" where
  "emit ev s = s\<lparr>trace := trace s @ [ev]\<rparr>"


section \<open>History store and configuration\<close>

text \<open>
  Modelled from the spec: the history store (\<^verbatim>\<open>order_classification_history_model\<close>) is not
  among the sources. The spec gives \<^verbatim>\<open>findByOrderId(orderId, tenant) -> record | absent\<close>: the
  lookup returns a row of the tenant with the order id, if there is one.
\<close>

definition get_saved_record_by_order_id ::
    "int \<Rightarrow> ustring \<Rightarrow> state \<Rightarrow> order_classification_record option" where
  "get_saved_record_by_order_id oid client s =
     map_option snd (find (\<lambda>(c, r). c = client \<and> order_id r = oid) (history s))"

text \<open>
  Modelled from the spec: the store keeps one record per pair of order id and tenant, and a
  save is an upsert. The row that the store holds for the record's order and the tenant is
  replaced; when it holds none, a row is added.
\<close>

fun upsert_row ::
    "ustring \<Rightarrow> order_classification_record \<Rightarrow> (ustring \<times> order_classification_record) list \<Rightarrow>
     (ustring \<times> order_classification_record) list" where
  "upsert_row client saved [] = [(client, saved)]"
| "upsert_row client saved ((c, r) # rows) =
     (if c = client \<and> order_id r = order_id saved then (client, saved) # rows
      else (c, r) # upsert_row client saved rows)"

text \<open>
  Modelled from the spec: the id under which a record is stored is the id of the row it
  replaces, or the next id for a new row.
\<close>

definition stored_id :: "order_classification_record \<Rightarrow> ustring \<Rightarrow> state \<Rightarrow> int option" where
  "stored_id r client s =
     (case get_saved_record_by_order_id (order_id r) client s of
        None \<Rightarrow> Some (int (length (history s)) + 1)
      | Some stored \<Rightarrow> record_id stored)"

text \<open>
  Modelled from the spec: the spec gives \<^verbatim>\<open>save(record, tenant) -> record\<close> with upsert
  semantics, called once per run, and names no failure of it. It returns the record as
  stored.
\<close>

definition save_order_classification_record ::
    "order_classification_record \<Rightarrow> ustring \<Rightarrow> state \<Rightarrow> order_classification_record \<times> state" where
  "save_order_classification_record r client s =
     (let saved = r\<lparr>record_id := stored_id r client s\<rparr>
      in (saved, s\<lparr>history := upsert_row client saved (history s),
                    trace := trace s @ [Save_record client r]\<rparr>))"

section \<open>Client of the order-management system\<close>

definition RESPONSIBLE_DEPT_ID :: int where
  "RESPONSIBLE_DEPT_ID = 38"

definition AI_USER_ID :: int where
  "AI_USER_ID = 15698"

text \<open>The Russian for "AI classified this order as an emergency", as code points.\<close>

definition ORDER_PROCESSED_BY_AI_MESSAGE :: ustring where
  "ORDER_PROCESSED_BY_AI_MESSAGE =
     [1048, 1048, 32, 1082, 1083, 1072, 1089, 1089, 1080, 1092, 1080, 1094, 1080, 1088, 1086,
      1074, 1072, 1083, 32, 1101, 1090, 1091, 32, 1079, 1072, 1103, 1074, 1082, 1091, 32, 1082,
      1072, 1082, 32, 1072, 1074, 1072, 1088, 1080, 1081, 1085, 1091, 1102]"

definition WAIT_TIME_IN_SEC :: nat where
  "WAIT_TIME_IN_SEC = 60"

fun is_auth :: "event \<Rightarrow> bool" where
  "is_auth POST_auth = True"
| "is_auth _ = False"

fun is_chain_run :: "event \<Rightarrow> bool" where
  "is_chain_run (Chain_run _ _ _) = True"
| "is_chain_run _ = False"

text \<open>\<^verbatim>\<open>response.json()["token"]\<close>: a \<^verbatim>\<open>KeyError\<close> prints the quoted key.\<close>

fun token_of :: "env \<Rightarrow> json \<Rightarrow> ustring + json" where
  "token_of e (JObj kvs) =
     (case map_of kvs (ascii ''token'') of
        None \<Rightarrow> Inl (39 # ascii ''token'' @ [39])
      | Some v \<Rightarrow> Inr v)"
| "token_of e j = Inl (subscript_error e j)"

definition get_auth_token :: "env \<Rightarrow> state \<Rightarrow> (exn + json) \<times> state" where
  "get_auth_token e s =
     (let s1 = emit POST_auth s in
      case auth_reply e (length (filter is_auth (trace s))) of
        Raises msg \<Rightarrow> (Inl (Exception msg), s1)
      | Response r \<Rightarrow>
          if \<not> ok r
          then (Inl (HTTPException (status_code r) (ascii ''Domyland Auth: '' @ response_text r)), s1)
          else (case response_json r of
                  Inl msg \<Rightarrow> (Inl (Exception msg), s1)
                | Inr data \<Rightarrow>
                    (case token_of e data of
                       Inl msg \<Rightarrow> (Inl (Exception msg), s1)
                     | Inr auth_token \<Rightarrow> (Inr auth_token, s1))))"

definition get_order_details_by_id :: "env \<Rightarrow> int \<Rightarrow> state \<Rightarrow> (exn + order_details) \<times> state" where
  "get_order_details_by_id e oid s =
     (case get_auth_token e s of
        (Inl x, s1) \<Rightarrow> (Inl x, s1)
      | (Inr auth_token, s1) \<Rightarrow>
          (let s2 = emit (GET_order_info oid auth_token) s1 in
           case order_info_reply e oid of
             Raises msg \<Rightarrow> (Inl (Exception msg), s2)
           | Response r \<Rightarrow>
               (case response_json r of
                  Inl msg \<Rightarrow> (Inl (Exception msg), s2)
                | Inr response_data \<Rightarrow>
                    if \<not> ok r
                    then (Inl (HTTPException (status_code r)
                                (ascii ''OrderDetails GET: '' @ py_str e response_data)), s2)
                    else (case parse_order_details e response_data of
                            Inl msg \<Rightarrow> (Inl (Exception msg), s2)
                          | Inr details \<Rightarrow> (Inr details, s2)))))"

definition update_order_status_details ::
    "env \<Rightarrow> int \<Rightarrow> int \<Rightarrow> int \<Rightarrow> int list \<Rightarrow> int list \<Rightarrow> state \<Rightarrow> (exn + json \<times> json) \<times> state" where
  "update_order_status_details e oid responsible_dept_id status_id responsible_users_ids
       inspector_users_ids s =
     (case get_auth_token e s of
        (Inl x, s1) \<Rightarrow> (Inl x, s1)
      | (Inr auth_token, s1) \<Rightarrow>
          (let req_body = JObj
                 [(ascii ''responsibleDeptId'', JInt responsible_dept_id),
                  (ascii ''orderStatusId'', JInt status_id),
                  (ascii ''responsibleUserIds'', JList (map JInt responsible_users_ids)),
                  (ascii ''inspectorIds'', JList (map JInt inspector_users_ids))];
               s2 = emit (PUT_order_status oid auth_token req_body) s1 in
           case order_status_reply e oid req_body of
             Raises msg \<Rightarrow> (Inl (Exception msg), s2)
           | Response r \<Rightarrow>
               (case response_json r of
                  Inl msg \<Rightarrow> (Inl (Exception msg), s2)
                | Inr response_data \<Rightarrow>
                    if \<not> ok r
                    then (Inl (HTTPException (status_code r)
                                (ascii ''Order status UPDATE: '' @ py_str e response_data)), s2)
                    else (Inr (response_data, req_body), s2))))"

definition send_message_to_internal_chat ::
    "env \<Rightarrow> int \<Rightarrow> ustring \<Rightarrow> state \<Rightarrow> (exn + json \<times> json) \<times> state" where
  "send_message_to_internal_chat e oid message s =
     (case get_auth_token e s of
        (Inl x, s1) \<Rightarrow> (Inl x, s1)
      | (Inr auth_token, s1) \<Rightarrow>
          (let req_body = JObj
                 [(ascii ''orderId'', JInt oid),
                  (ascii ''text'', JStr message),
                  (ascii ''isImportant'', JBool False)];
               s2 = emit (POST_order_comments auth_token req_body) s1 in
           case order_comments_reply e req_body of
             Raises msg \<Rightarrow> (Inl (Exception msg), s2)
           | Response r \<Rightarrow>
               (case response_json r of
                  Inl msg \<Rightarrow> (Inl (Exception msg), s2)
                | Inr response_data \<Rightarrow>
                    if \<not> ok r
                    then (Inl (HTTPException (status_code r)
                                (ascii ''Order internal chat POST: '' @ py_str e response_data)), s2)
                    else (Inr (response_data, req_body), s2))))"

section \<open>Responsible-unit resolver\<close>

text \<open>The inner loop: does the order address contain one of the unit's addresses?\<close>

fun scan_address_list :: "env \<Rightarrow> ustring list \<Rightarrow> ustring \<Rightarrow> bool" where
  "scan_address_list e [] order_addr = False"
| "scan_address_list e (uds_address # rest) order_addr =
     (if py_in (lower e uds_address) (lower e order_addr) then True
      else scan_address_list e rest order_addr)"

text \<open>The outer loop over the units, in the order of the list.\<close>

fun scan_uds_list :: "env \<Rightarrow> uds list \<Rightarrow> ustring \<Rightarrow> int list option" where
  "scan_uds_list e [] order_addr = None"
| "scan_uds_list e (uds_data # rest) order_addr =
     (if scan_address_list e (address_list uds_data) order_addr then Some [uds_user_id uds_data]
      else scan_uds_list e rest order_addr)"

definition get_responsible_users_ids_by_order_address :: "env \<Rightarrow> ustring \<Rightarrow> int list option" where
  "get_responsible_users_ids_by_order_address e order_addr =
     scan_uds_list e (RESPONSIBLE_UDS_LIST e) order_addr"

section \<open>Classification engine\<close>

text \<open>
  The source retries by calling itself from the handler of the rate-limit error, so every
  retry is one more frame on the interpreter's stack. The first argument counts the nested
  calls the interpreter still allows; when none is left Python raises \<^verbatim>\<open>RecursionError\<close>,
  an \<^verbatim>\<open>Exception\<close> that the handler of the rate-limit error does not catch.
\<close>

fun get_order_emergency ::
    "nat \<Rightarrow> env \<Rightarrow> ustring \<Rightarrow> ustring \<Rightarrow> ustring \<Rightarrow> state \<Rightarrow> (exn + ustring) \<times> state" where
  "get_order_emergency 0 e prompt client query s = (Inl (Exception (recursion_error e)), s)"
| "get_order_emergency (Suc depth) e prompt client query s =
     (let s1 = emit (Chain_run prompt client query) s in
      case chain_run e (length (filter is_chain_run (trace s))) prompt client query of
        Answer label \<Rightarrow> (Inr label, s1)
      | Fails x \<Rightarrow> (Inl x, s1)
      | RateLimitError \<Rightarrow>
          get_order_emergency depth e prompt client query (emit (Sleep WAIT_TIME_IN_SEC) s1))"


section \<open>Pipeline orchestrator\<close>

text \<open>The label of an emergency order, the Russian adjective in lower case, as code points.\<close>

definition EMERGENCY_LABEL :: ustring where
  "EMERGENCY_LABEL = [1072, 1074, 1072, 1088, 1080, 1081, 1085, 1072, 1103]"

definition disabled_field_msg :: "int \<Rightarrow> ustring" where
  "disabled_field_msg uid =
     ascii ''skipped by emergency classification config of user with ID '' @ str_int uid"

text \<open>What the handler copies into the comment: \<^verbatim>\<open>error.detail\<close> or \<^verbatim>\<open>str(error)\<close>.\<close>

fun error_comment :: "exn \<Rightarrow> ustring" where
  "error_comment (HTTPException code detail) = detail"
| "error_comment (Exception msg) = msg"

text \<open>The two scans over the order's fields: a later match overwrites an earlier one.\<close>

fun scan_order_form :: "env \<Rightarrow> order_form list \<Rightarrow> ustring option \<Rightarrow> ustring option" where
  "scan_order_form e [] found = found"
| "scan_order_form e (f # fs) found =
     scan_order_form e fs
       (if form_type f = TEXT e \<and> form_title f = COMMENT e then form_value f else found)"

fun scan_summary :: "env \<Rightarrow> summary list \<Rightarrow> ustring option \<Rightarrow> ustring option" where
  "scan_summary e [] found = found"
| "scan_summary e (f # fs) found =
     scan_summary e fs (if summary_title f = OBJECT e then summary_value f else found)"

text \<open>\<^verbatim>\<open>not exists or empty\<close>, with empty meaning that nothing is left after \<^verbatim>\<open>strip()\<close>.\<close>

fun missing_or_blank :: "ustring option \<Rightarrow> bool" where
  "missing_or_blank None = True"
| "missing_or_blank (Some t) = (strip t = [])"

text \<open>
  The gates before any call to the order-management system: the order is not in the history
  yet, its status is pending, the tenant has a default config, and the alert is a new order
  when classification is on. Status codes are those of \<^verbatim>\<open>fastapi.status\<close>. The members of the
  enumerations are printed as their integer values.
\<close>

definition check_request ::
    "env \<Rightarrow> order_classification_request \<Rightarrow> ustring \<Rightarrow> state \<Rightarrow> exn + order_classification_config" where
  "check_request e body client s =
     (case get_saved_record_by_order_id (orderId body) client s of
        Some saved_record \<Rightarrow>
          Inl (HTTPException 409
                 (ascii ''Order with ID '' @ str_int (orderId body) @
                  ascii '' was already classified, history record ID '' @
                  str_opt_int (record_id saved_record)))
      | None \<Rightarrow>
          if orderStatusId body \<noteq> PENDING e
          then Inl (HTTPException 400
                      (ascii ''Order with ID '' @ str_int (orderId body) @
                       ascii '' has status ID '' @ str_int (orderStatusId body) @
                       ascii '', but status ID '' @ str_int (PENDING e) @ ascii '' required''))
          else (case get_default_config e client of
                  None \<Rightarrow>
                    Inl (HTTPException 500
                           (ascii ''Default order classification config (for user with ID '' @
                            str_int (DEFAULT_CONFIG_USER_ID e) @ ascii '' and client '' @ client @
                            ascii '') not found''))
                | Some config \<Rightarrow>
                    if is_use_emergency_classification config \<and> alertTypeId body \<noteq> NEW_ORDER e
                    then Inl (HTTPException 400
                                (ascii ''Order with ID '' @ str_int (orderId body) @
                                 ascii '' has alert type ID '' @ str_int (alertTypeId body) @
                                 ascii '', but status ID '' @ str_int (NEW_ORDER e) @
                                 ascii '' required''))
                    else Inr config))"

text \<open>Fetching the order and reading the resident's comment and address out of it.\<close>

definition read_order ::
    "env \<Rightarrow> order_classification_config \<Rightarrow> int \<Rightarrow> order_classification_record \<Rightarrow> state \<Rightarrow>
     exn option \<times> order_classification_record \<times> state" where
  "read_order e config oid r s =
     (case get_order_details_by_id e oid s of
        (Inl x, s1) \<Rightarrow> (Some x, r, s1)
      | (Inr details, s1) \<Rightarrow>
          (let r1 = r\<lparr>order_details := Some details\<rparr>;
               query = scan_order_form e (service_orderForm details) None;
               r2 = r1\<lparr>order_query := query\<rparr> in
           if is_use_emergency_classification config \<and> missing_or_blank query
           then (Some (HTTPException 422
                         (ascii ''Order with ID '' @ str_int oid @
                          ascii '' has no comment, cannot classify emergency'')), r2, s1)
           else (let address = scan_summary e (order_summary details) None;
                     r3 = r2\<lparr>order_address := address\<rparr> in
                 if is_use_emergency_classification config \<and> missing_or_blank address
                 then (Some (HTTPException 422
                               (ascii ''Order with ID '' @ str_int oid @
                                ascii '' has no address, cannot find responsible UDS'')), r3, s1)
                 else (None, r3, s1))))"

text \<open>
  Running the classifier, or recording that the config skips it. With classification on the
  comment is present here, since \<open>read_order\<close> has checked it; on \<^verbatim>\<open>None\<close> the first
  method call of the normalizer would raise \<^verbatim>\<open>AttributeError\<close>.
\<close>

definition classify_order ::
    "env \<Rightarrow> order_classification_config \<Rightarrow> ustring \<Rightarrow> order_classification_record \<Rightarrow> state \<Rightarrow>
     exn option \<times> order_classification_record \<times> state" where
  "classify_order e config client r s =
     (if is_use_emergency_classification config
      then (case order_query r of
              None \<Rightarrow>
                (Some (Exception (39 # ascii ''NoneType'' @ 39 # ascii '' object has no attribute '' @ 39 # ascii ''replace'' @ [39])), r, s)
            | Some query \<Rightarrow>
                (let normalized_query = normalize_resident_request_string query;
                     r1 = r\<lparr>order_normalized_query := Some normalized_query\<rparr> in
                 case get_order_emergency (recursion_limit e) e (emergency_prompt config) client
                        normalized_query s of
                   (Inl x, s1) \<Rightarrow> (Some x, r1, s1)
                 | (Inr label, s1) \<Rightarrow>
                     (None,
                      r1\<lparr>order_emergency := Some label,
                         is_emergency := Some (strip (lower e label) = EMERGENCY_LABEL)\<rparr>,
                      s1)))
      else (None,
            r\<lparr>order_emergency := Some (disabled_field_msg (user_id config)),
              is_emergency := None\<rparr>,
            s))"

text \<open>
  The update of the order in the order-management system, for an emergency only. The
  request and the response are written to the record after both calls have returned.
\<close>

definition dispatch_order ::
    "env \<Rightarrow> order_classification_config \<Rightarrow> int \<Rightarrow> order_classification_record \<Rightarrow> state \<Rightarrow>
     exn option \<times> order_classification_record \<times> state" where
  "dispatch_order e config oid r s =
     (if is_emergency r = Some True \<and> is_use_emergency_classification config
      then (case order_address r of
              None \<Rightarrow>
                (Some (Exception (39 # ascii ''NoneType'' @ 39 # ascii '' object has no attribute '' @ 39 # ascii ''lower'' @ [39])), r, s)
            | Some address \<Rightarrow>
                (let responsible_users_ids = get_responsible_users_ids_by_order_address e address;
                     r1 = r\<lparr>uds_id := Some (str_opt_int_list responsible_users_ids)\<rparr> in
                 case responsible_users_ids of
                   None \<Rightarrow>
                     (Some (HTTPException 501
                              (ascii ''Cannot find responsible UDS for order with ID '' @
                               str_int oid @ ascii '' and address '' @ 39 # address @ [39])),
                      r1, s)
                 | Some ids \<Rightarrow>
                     if is_use_order_updating config \<and> is_use_emergency_classification config
                     then (case update_order_status_details e oid RESPONSIBLE_DEPT_ID
                                  (IN_PROGRESS e) ids [AI_USER_ID] s of
                             (Inl x, s1) \<Rightarrow> (Some x, r1, s1)
                           | (Inr (response, request_body), s1) \<Rightarrow>
                               (case send_message_to_internal_chat e oid
                                       ORDER_PROCESSED_BY_AI_MESSAGE s1 of
                                  (Inl x, s2) \<Rightarrow> (Some x, r1, s2)
                                | (Inr sent, s2) \<Rightarrow>
                                    (None,
                                     r1\<lparr>order_update_request := Some request_body,
                                        order_update_response := Some response\<rparr>,
                                     s2)))
                     else (None,
                           r1\<lparr>order_update_request :=
                                 Some (JObj [(ascii ''result'',
                                              JStr (disabled_field_msg (user_id config)))]),
                              order_update_response :=
                                 Some (JObj [(ascii ''result'',
                                              JStr (disabled_field_msg (user_id config)))])\<rparr>,
                           s)))
      else (None, r, s))"

text \<open>
  The body of the \<^verbatim>\<open>try\<close> block: the first exception ends it, with the record as far as it
  had been filled in.
\<close>

definition get_emergency_class_try ::
    "env \<Rightarrow> order_classification_request \<Rightarrow> ustring \<Rightarrow> order_classification_record \<Rightarrow> state \<Rightarrow>
     exn option \<times> order_classification_record \<times> state" where
  "get_emergency_class_try e body client r s =
     (case check_request e body client s of
        Inl x \<Rightarrow> (Some x, r, s)
      | Inr config \<Rightarrow>
          (case read_order e config (orderId body) r s of
             (Some x, r1, s1) \<Rightarrow> (Some x, r1, s1)
           | (None, r1, s1) \<Rightarrow>
               (case classify_order e config client r1 s1 of
                  (Some x, r2, s2) \<Rightarrow> (Some x, r2, s2)
                | (None, r2, s2) \<Rightarrow> dispatch_order e config (orderId body) r2 s2)))"

text \<open>
  Modelled from the spec: the schema of the history record is not among the sources. A new
  record has the five fields of the request; every other field is unset and the error flag
  is off.
\<close>

definition new_record :: "order_classification_request \<Rightarrow> order_classification_record" where
  "new_record body =
     \<lparr>record_id = None, alert_id = alertId body, alert_type_id = alertTypeId body,
      alert_timestamp = timestamp body, order_id = orderId body,
      order_status_id = orderStatusId body, order_details = None, order_query = None,
      order_address = None, order_normalized_query = None, order_emergency = None,
      is_emergency = None, uds_id = None, order_update_request = None,
      order_update_response = None, is_error = False, comment = None\<rparr>"

definition get_emergency_class ::
    "env \<Rightarrow> order_classification_request \<Rightarrow> ustring \<Rightarrow> state \<Rightarrow>
     order_classification_record \<times> state" where
  "get_emergency_class e body client s =
     (case get_emergency_class_try e body client (new_record body) s of
        (None, r, s1) \<Rightarrow> save_order_classification_record r client s1
      | (Some error, r, s1) \<Rightarrow>
          save_order_classification_record
            (r\<lparr>is_error := True, comment := Some (error_comment error)\<rparr>) client s1)"


section \<open>A concrete deployment for the examples\<close>

text \<open>
  Lower case for the Latin and the Russian capital letters, standing in for \<^verbatim>\<open>str.lower\<close> in
  the examples only; the theorems hold for every function in its place.
\<close>

definition simple_lower :: "ustring \<Rightarrow> ustring" where
  "simple_lower s = map (\<lambda>c. if (65 \<le> c \<and> c \<le> 90) \<or> (1040 \<le> c \<and> c \<le> 1071) then c + 32 else c) s"

definition ok_json :: "json \<Rightarrow> reply" where
  "ok_json j = Response \<lparr>ok = True, status_code = 200, response_text = [], response_json = Inr j\<rparr>"

definition demo_details :: order_details where
  "demo_details =
     \<lparr>service_orderForm =
        [\<lparr>form_type = ascii ''text'', form_title = ascii ''comment'',
          form_value = Some [1058, 1088, 1091, 1073, 1072, 32, 1090, 1077, 1095, 1077, 1090, 44, 32,
                             1089, 1088, 1086, 1095, 1085, 1086, 33]\<rparr>],
      order_summary =
        [\<lparr>summary_title = ascii ''object'',
          summary_value = Some [1091, 1083, 46, 32, 1051, 1077, 1085, 1080, 1085, 1072, 32, 53]\<rparr>]\<rparr>"

definition demo_config :: order_classification_config where
  "demo_config = \<lparr>user_id = 1, is_use_emergency_classification = True,
                  is_use_order_updating = True, emergency_prompt = ascii ''prompt''\<rparr>"

definition demo_env :: env where
  "demo_env =
     \<lparr>lower = simple_lower, py_str = (\<lambda>j. ascii ''{}''), subscript_error = (\<lambda>j. ascii ''TypeError''),
      parse_order_details = (\<lambda>j. Inr demo_details),
      RESPONSIBLE_UDS_LIST = [\<lparr>uds_user_id = 7, address_list = [[1083, 1077, 1085, 1080, 1085, 1072]]\<rparr>],
      PENDING = 1, IN_PROGRESS = 2, NEW_ORDER = 1,
      TEXT = ascii ''text'', COMMENT = ascii ''comment'', OBJECT = ascii ''object'',
      DEFAULT_CONFIG_USER_ID = 1, recursion_limit = 900, recursion_error = ascii ''maximum recursion depth exceeded'',
      get_default_config = (\<lambda>c. Some demo_config),
      auth_reply = (\<lambda>n. ok_json (JObj [(ascii ''token'', JStr (ascii ''t''))])),
      order_info_reply = (\<lambda>i. ok_json (JObj [])),
      order_status_reply = (\<lambda>i b. ok_json (JObj [])),
      order_comments_reply = (\<lambda>b. ok_json (JObj [])),
      chain_run = (\<lambda>n p c q. Answer [1040, 1074, 1072, 1088, 1080, 1081, 1085, 1072, 1103, 32])\<rparr>"

definition demo_request :: order_classification_request where
  "demo_request = \<lparr>alertId = 1, alertTypeId = 1, timestamp = 0, orderId = 42, orderStatusId = 1\<rparr>"

definition empty_state :: state where
  "empty_state = \<lparr>history = [], trace = []\<rparr>"

section \<open>Observing a run\<close>

text \<open>
  The calls that change an order in the order-management system, and the write to the
  history store.
\<close>

fun is_update :: "event \<Rightarrow> bool" where
  "is_update (PUT_order_status _ _ _) = True"
| "is_update (POST_order_comments _ _) = True"
| "is_update _ = False"

fun is_save :: "event \<Rightarrow> bool" where
  "is_save (Save_record _ _) = True"
| "is_save _ = False"

text \<open>The events of a run that started in \<open>s\<close> and ended in \<open>s'\<close>.\<close>

definition new_events :: "state \<Rightarrow> state \<Rightarrow> event list" where
  "new_events s s' = drop (length (trace s)) (trace s')"

text \<open>
  From \<open>s\<close> to \<open>s'\<close> the history is untouched and the trace has only got longer, by events
  that satisfy \<open>P\<close>.
\<close>

definition grows :: "(event \<Rightarrow> bool) \<Rightarrow> state \<Rightarrow> state \<Rightarrow> bool" where
  "grows P s s' = (history s' = history s \<and> (\<exists>evs. trace s' = trace s @ evs \<and> list_all P evs))"

definition quiet :: "event \<Rightarrow> bool" where
  "quiet ev = (\<not> is_save ev \<and> \<not> is_update ev)"


definition invalid_status_detail :: "env \<Rightarrow> order_classification_request \<Rightarrow> ustring" where
  "invalid_status_detail e body =
     ascii ''Order with ID '' @ str_int (orderId body) @ ascii '' has status ID '' @
     str_int (orderStatusId body) @ ascii '', but status ID '' @ str_int (PENDING e) @
     ascii '' required''"


definition closed_request :: order_classification_request where
  "closed_request = \<lparr>alertId = 1, alertTypeId = 1, timestamp = 0, orderId = 42, orderStatusId = 5\<rparr>"

section \<open>The resolver in the words of the spec\<close>

text \<open>
  A unit matches an order address when one of its addresses is contained in it, both in lower
  case. The spec's resolver returns the id of the first unit of the configured list that
  matches.
\<close>

definition unit_matches :: "env \<Rightarrow> uds \<Rightarrow> ustring \<Rightarrow> bool" where
  "unit_matches e u order_addr =
     list_ex (\<lambda>a. py_in (lower e a) (lower e order_addr)) (address_list u)"

definition first_matching_unit :: "env \<Rightarrow> ustring \<Rightarrow> int list option" where
  "first_matching_unit e order_addr =
     map_option (\<lambda>u. [uds_user_id u])
       (find (\<lambda>u. unit_matches e u order_addr) (RESPONSIBLE_UDS_LIST e))"

text \<open>Two units for the examples: the address of the first is a prefix of the second's.\<close>

definition short_unit :: uds where
  "short_unit = \<lparr>uds_user_id = 7, address_list = [ascii ''len'']\<rparr>"

definition long_unit :: uds where
  "long_unit = \<lparr>uds_user_id = 8, address_list = [ascii ''lenina'']\<rparr>"

section \<open>Observing the classification engine\<close>

text \<open>
  The events of \<open>n\<close> throttled attempts: the call and the wait that follows it. A chain call
  either ends the engine with a result or asks for a retry.
\<close>

definition retries :: "nat \<Rightarrow> ustring \<Rightarrow> ustring \<Rightarrow> ustring \<Rightarrow> event list" where
  "retries n prompt client query =
     concat (replicate n [Chain_run prompt client query, Sleep WAIT_TIME_IN_SEC])"

definition chain_calls :: "state \<Rightarrow> nat" where
  "chain_calls s = length (filter is_chain_run (trace s))"

fun chain_result :: "chain_outcome \<Rightarrow> (exn + ustring) option" where
  "chain_result (Answer label) = Some (Inr label)"
| "chain_result (Fails x) = Some (Inl x)"
| "chain_result RateLimitError = None"

text \<open>
  Two states look the same to the rest of the run when they hold the same history and have
  seen the same number of authentications.
\<close>

definition same_view :: "state \<Rightarrow> state \<Rightarrow> bool" where
  "same_view s s' =
     (history s = history s' \<and>
      length (filter is_auth (trace s)) = length (filter is_auth (trace s')))"

text \<open>
  A model provider that throttles the first two calls, and the same provider under an
  interpreter whose stack has room for two nested calls of the engine only.
\<close>

definition throttled_env :: env where
  "throttled_env =
     demo_env\<lparr>chain_run := \<lambda>i p c q. if i < 2 then RateLimitError else Answer EMERGENCY_LABEL\<rparr>"

definition shallow_env :: env where
  "shallow_env = throttled_env\<lparr>recursion_limit := 2\<rparr>"

section \<open>Observing the record\<close>

text \<open>
  The emergency flag of a record agrees with its classifier output: unset when there is no
  output, and otherwise the comparison of the output, in lower case and stripped, with the
  label.
\<close>

definition labelled :: "env \<Rightarrow> order_classification_record \<Rightarrow> bool" where
  "labelled e r =
     (case order_emergency r of
        None \<Rightarrow> is_emergency r = None
      | Some label \<Rightarrow> is_emergency r = Some (strip (lower e label) = EMERGENCY_LABEL))"

text \<open>The detail of the missing unit, and the dictionary recorded for a skipped update.\<close>

definition no_unit_detail :: "int \<Rightarrow> ustring \<Rightarrow> ustring" where
  "no_unit_detail oid address =
     ascii ''Cannot find responsible UDS for order with ID '' @ str_int oid @
     ascii '' and address '' @ 39 # address @ [39]"

definition skipped_marker :: "order_classification_config \<Rightarrow> json" where
  "skipped_marker config = JObj [(ascii ''result'', JStr (disabled_field_msg (user_id config)))]"

text \<open>
  Deployments for the examples: classification switched off while the order cannot be
  fetched, order updating switched off, and a chat endpoint that answers with status 500.
\<close>

definition failing_fetch_env :: env where
  "failing_fetch_env =
     demo_env\<lparr>get_default_config :=
                  (\<lambda>c. Some (demo_config\<lparr>is_use_emergency_classification := False\<rparr>)),
              order_info_reply := (\<lambda>i. Raises (ascii ''connection refused''))\<rparr>"

definition no_updating_env :: env where
  "no_updating_env =
     demo_env\<lparr>get_default_config := (\<lambda>c. Some (demo_config\<lparr>is_use_order_updating := False\<rparr>))\<rparr>"

definition failing_chat_env :: env where
  "failing_chat_env =
     demo_env\<lparr>order_comments_reply :=
       (\<lambda>b. Response \<lparr>ok = False, status_code = 500, response_text = [],
                       response_json = Inr (JObj [])\<rparr>)\<rparr>"

section \<open>Properties of the normalizer\<close>

lemma is_space_32: "is_space 32" by (simp add: is_space_def)
lemma is_space_10: "is_space 10" by (simp add: is_space_def)

lemma url_at_Cons:
  "url_at (c # cs) = (c = 104 \<and> (\<exists>d r. cs = 116 # 116 # 112 # d # r \<and> \<not> is_space d))"
  by (auto simp: url_at_def HTTP_def prefix_def split: list.splits)

lemma not_space_http: "\<not> is_space 104" "\<not> is_space 116" "\<not> is_space 112"
  by (simp_all add: is_space_def)

lemma sub_spaces_head:
  "sub_spaces s = d # r \<Longrightarrow> \<not> is_space d \<Longrightarrow> \<exists>s'. s = d # s' \<and> r = sub_spaces s'"
  by (cases s) (auto simp: is_space_32 split: if_splits)

lemma sub_urls_head:
  "sub_urls s = d # r \<Longrightarrow> d \<noteq> 32 \<Longrightarrow> \<exists>s'. s = d # s' \<and> r = sub_urls s'"
  by (cases s) (auto split: if_splits)

lemma has_url_dropWhile: "has_url (dropWhile P s) \<Longrightarrow> has_url s"
  by (induction s) (auto split: if_splits)

lemma has_url_drop: "has_url (drop n s) \<Longrightarrow> has_url s"
proof (induction s arbitrary: n)
  case Nil then show ?case by simp
next
  case (Cons c cs) then show ?case by (cases n) auto
qed

lemma url_at_sub_urls:
  assumes "url_at (c # sub_urls cs)" shows "url_at (c # cs)"
proof -
  from assms obtain d r where c: "c = 104" and eq: "sub_urls cs = 116 # 116 # 112 # d # r"
    and d: "\<not> is_space d"
    by (auto simp: url_at_Cons)
  from sub_urls_head [OF eq] obtain s1 where s1: "cs = 116 # s1" "116 # 112 # d # r = sub_urls s1"
    by auto
  from sub_urls_head [OF s1(2) [symmetric]] obtain s2 where s2: "s1 = 116 # s2" "112 # d # r = sub_urls s2"
    by auto
  from sub_urls_head [OF s2(2) [symmetric]] obtain s3 where s3: "s2 = 112 # s3" "d # r = sub_urls s3"
    by auto
  from d have "d \<noteq> 32" using is_space_32 by auto
  from sub_urls_head [OF s3(2) [symmetric] this] obtain s4 where s4: "s3 = d # s4" by auto
  show ?thesis using c s1 s2 s3 s4 d by (simp add: url_at_Cons)
qed

lemma no_url_sub_urls: "\<not> has_url (sub_urls s)"
proof (induction s rule: sub_urls.induct)
  case 1 show ?case by simp
next
  case (2 c cs)
  show ?case
  proof (cases "url_at (c # cs)")
    case True
    with 2 show ?thesis by (simp add: url_at_Cons)
  next
    case False
    with 2 url_at_sub_urls [of c cs] show ?thesis by auto
  qed
qed

lemma url_at_sub_spaces:
  assumes "url_at (c # sub_spaces cs)" shows "url_at (c # cs)"
proof -
  from assms obtain d r where c: "c = 104" and eq: "sub_spaces cs = 116 # 116 # 112 # d # r"
    and d: "\<not> is_space d"
    by (auto simp: url_at_Cons)
  from sub_spaces_head [OF eq not_space_http(2)] obtain s1
    where s1: "cs = 116 # s1" "116 # 112 # d # r = sub_spaces s1" by auto
  from sub_spaces_head [OF s1(2) [symmetric] not_space_http(2)] obtain s2
    where s2: "s1 = 116 # s2" "112 # d # r = sub_spaces s2" by auto
  from sub_spaces_head [OF s2(2) [symmetric] not_space_http(3)] obtain s3
    where s3: "s2 = 112 # s3" "d # r = sub_spaces s3" by auto
  from sub_spaces_head [OF s3(2) [symmetric] d] obtain s4 where s4: "s3 = d # s4" by auto
  show ?thesis using c s1 s2 s3 s4 d by (simp add: url_at_Cons)
qed

lemma has_url_sub_spaces: "has_url (sub_spaces s) \<Longrightarrow> has_url s"
proof (induction s rule: sub_spaces.induct)
  case 1 then show ?case by simp
next
  case (2 c cs)
  show ?case
  proof (cases "is_space c")
    case True
    with 2 have "has_url (dropWhile is_space cs)" by (auto simp: url_at_Cons)
    then show ?thesis by (auto dest: has_url_dropWhile)
  next
    case False
    with 2 url_at_sub_spaces [of c cs] show ?thesis by auto
  qed
qed

lemma sub_urls_id: "\<not> has_url s \<Longrightarrow> sub_urls s = s"
  by (induction s) auto

lemma sub_spaces_only_32: "x \<in> set (sub_spaces s) \<Longrightarrow> is_space x \<Longrightarrow> x = 32"
proof (induction s rule: sub_spaces.induct)
  case 1 then show ?case by simp
next
  case (2 c cs) then show ?case by (auto split: if_splits)
qed

lemma dropWhile_sub_spaces_dropWhile:
  "dropWhile is_space (sub_spaces (dropWhile is_space s)) = sub_spaces (dropWhile is_space s)"
proof (cases "dropWhile is_space s")
  case Nil then show ?thesis by (simp only: sub_spaces.simps dropWhile.simps)
next
  case (Cons d r)
  then have "\<not> is_space d" using hd_dropWhile [of is_space s] by auto
  with Cons show ?thesis by simp
qed

lemma sub_spaces_idem: "sub_spaces (sub_spaces s) = sub_spaces s"
proof (induction s rule: sub_spaces.induct)
  case 1 show ?case by simp
next
  case (2 c cs)
  then show ?case by (auto simp: is_space_32 dropWhile_sub_spaces_dropWhile)
qed

lemma str_replace_absent:
  "old \<noteq> [] \<Longrightarrow> \<not> py_in old s \<Longrightarrow> str_replace old new s = s"
  by (induction s) auto

lemma length_sub_urls: "length (sub_urls s) \<le> length s"
proof (induction s rule: sub_urls.induct)
  case 1 show ?case by simp
next
  case (2 c cs)
  show ?case
  proof (cases "url_at (c # cs)")
    case True
    have "length (dropWhile (\<lambda>d. \<not> is_space d) (drop 4 (c # cs))) \<le> length cs"
      by (rule le_trans [OF length_dropWhile_le]) simp
    with 2 True show ?thesis by auto
  next
    case False with 2 show ?thesis by simp
  qed
qed

lemma length_sub_spaces: "length (sub_spaces s) \<le> length s"
proof (induction s rule: sub_spaces.induct)
  case 1 show ?case by simp
next
  case (2 c cs)
  show ?case
  proof (cases "is_space c")
    case True
    have "length (dropWhile is_space cs) \<le> length cs" by (rule length_dropWhile_le)
    with 2 True show ?thesis by auto
  next
    case False with 2 show ?thesis by simp
  qed
qed

lemma length_str_replace_le:
  "old \<noteq> [] \<Longrightarrow> length old \<ge> 1 \<Longrightarrow> length (str_replace old [x] s) \<le> length s"
proof (induction old "[x]" s rule: str_replace.induct)
  case (1 old) then show ?case by simp
next
  case (2 old c cs)
  show ?case
  proof (cases "prefix old (c # cs)")
    case True
    then have "length old \<le> length (c # cs)" by (rule prefix_length_le)
    with 2 True show ?thesis by (auto)
  next
    case False with 2 show ?thesis by simp
  qed
qed

lemma length_str_replace_less:
  "length old \<ge> 2 \<Longrightarrow> py_in old s \<Longrightarrow> length (str_replace old [x] s) < length s"
proof (induction old "[x]" s rule: str_replace.induct)
  case (1 old) then show ?case by auto
next
  case (2 old c cs)
  from "2.prems"(1) have ne: "old \<noteq> []" by auto
  show ?case
  proof (cases "prefix old (c # cs)")
    case True
    then have le: "length old \<le> length (c # cs)" by (rule prefix_length_le)
    have "length (str_replace old [x] (drop (length old) (c # cs))) \<le> length (drop (length old) (c # cs))"
      using ne by (intro length_str_replace_le) (auto simp: Suc_le_eq)
    with "2.prems" le True ne show ?thesis by (auto)
  next
    case False with 2 ne show ?thesis by simp
  qed
qed


text \<open>
  Claim C3, as the code has it. The normalizer is not idempotent on every string: whitespace
  is collapsed after the photo placeholder is looked for, so a placeholder written with two
  spaces survives the first pass as a placeholder with one space and is removed by the
  second pass. What holds is the exact condition: normalizing a second time changes nothing
  if and only if the normalized text contains no occurrence of the placeholder.
\<close>

theorem normalize_idempotent_iff_no_placeholder:
  "normalize_resident_request_string (normalize_resident_request_string x) =
     normalize_resident_request_string x
   \<longleftrightarrow> \<not> py_in PHOTO_PHRASE (normalize_resident_request_string x)"
proof -
  define y where "y = normalize_resident_request_string x"
  have y: "y = sub_spaces (sub_urls (str_replace PHOTO_PHRASE [32] (str_replace [10] [32] x)))"
    by (simp add: y_def normalize_resident_request_string_def)
  have no10: "10 \<notin> set y"
    using sub_spaces_only_32 [of 10] is_space_10 unfolding y by fastforce
  then have "\<not> py_in [10] y" by (induction y) auto
  then have a: "str_replace [10] [32] y = y" by (simp add: str_replace_absent)
  have nourl: "\<not> has_url y"
    unfolding y using no_url_sub_urls has_url_sub_spaces by blast
  have idem: "sub_spaces y = y" unfolding y by (rule sub_spaces_idem)
  have ny: "normalize_resident_request_string y = sub_spaces (sub_urls (str_replace PHOTO_PHRASE [32] y))"
    by (simp add: normalize_resident_request_string_def a)
  show ?thesis
  proof (cases "py_in PHOTO_PHRASE y")
    case False
    then have "str_replace PHOTO_PHRASE [32] y = y"
      by (intro str_replace_absent) (auto simp: PHOTO_PHRASE_def)
    with ny nourl idem False show ?thesis by (simp add: sub_urls_id y_def [symmetric])
  next
    case True
    have "length (str_replace PHOTO_PHRASE [32] y) < length y"
      by (rule length_str_replace_less [OF _ True]) (simp add: PHOTO_PHRASE_def)
    moreover have "length (normalize_resident_request_string y) \<le> length (str_replace PHOTO_PHRASE [32] y)"
      unfolding ny by (rule le_trans [OF length_sub_spaces length_sub_urls])
    ultimately have "normalize_resident_request_string y \<noteq> y" by auto
    with True show ?thesis by (simp add: y_def [symmetric])
  qed
qed


lemmas normalizer_eval =
  normalize_resident_request_string_def PHOTO_PHRASE_def HTTP_def url_at_def is_space_def
  ascii_def

theorem normalize_idempotent_witness:
  "normalize_resident_request_string
     (normalize_resident_request_string (ascii ''see http://x.com now'')) =
   normalize_resident_request_string (ascii ''see http://x.com now'')"
proof -
  have "\<not> py_in PHOTO_PHRASE (normalize_resident_request_string (ascii ''see http://x.com now''))"
    by (simp add: normalizer_eval)
  then show ?thesis
    using normalize_idempotent_iff_no_placeholder [of "ascii ''see http://x.com now''"] by blast
qed

text \<open>
  The input of the counterexample is the placeholder with two spaces between its words.
\<close>

theorem normalize_not_idempotent:
  "normalize_resident_request_string
     (normalize_resident_request_string
        [1055, 1088, 1080, 1082, 1088, 1077, 1087, 1080, 1090, 1077, 32, 32,
         1092, 1086, 1090, 1086, 58]) \<noteq>
   normalize_resident_request_string
     [1055, 1088, 1080, 1082, 1088, 1077, 1087, 1080, 1090, 1077, 32, 32,
      1092, 1086, 1090, 1086, 58]"
  by (simp add: normalizer_eval)

section \<open>How a run changes the state\<close>

lemma grows_refl: "grows P s s"
  by (simp add: grows_def)

lemma grows_trans: "grows P s s1 \<Longrightarrow> grows P s1 s2 \<Longrightarrow> grows P s s2"
  by (auto simp: grows_def)

lemma grows_emit: "P ev \<Longrightarrow> grows P s (emit ev s)"
  by (simp add: grows_def emit_def)

lemma grows_emit2: "P ev \<Longrightarrow> grows P s s1 \<Longrightarrow> grows P s (emit ev s1)"
  by (auto simp: grows_def emit_def)

lemma grows_mono: "grows P s s' \<Longrightarrow> (\<And>ev. P ev \<Longrightarrow> Q ev) \<Longrightarrow> grows Q s s'"
  by (auto simp: grows_def list_all_iff)

lemma grows_new_events: "grows P s s' \<Longrightarrow> list_all P (new_events s s')"
  by (auto simp: grows_def new_events_def)

lemma get_auth_token_state: "snd (get_auth_token e s) = emit POST_auth s"
  by (simp add: get_auth_token_def Let_def split: reply.splits sum.splits)

lemma get_auth_token_grows: "P POST_auth \<Longrightarrow> grows P s (snd (get_auth_token e s))"
  by (simp add: get_auth_token_state grows_emit)

lemma get_order_details_grows:
  assumes "P POST_auth" "\<And>tok. P (GET_order_info oid tok)"
  shows "grows P s (snd (get_order_details_by_id e oid s))"
proof (cases "get_auth_token e s")
  case (Pair res s1)
  then have s1: "s1 = emit POST_auth s" using get_auth_token_state [of e s] by simp
  show ?thesis
    using assms Pair
    by (auto simp: get_order_details_by_id_def Let_def s1 grows_emit grows_emit2
             split: sum.splits reply.splits)
qed

lemma update_order_status_grows:
  assumes "P POST_auth" "\<And>tok b. P (PUT_order_status oid tok b)"
  shows "grows P s (snd (update_order_status_details e oid d st us ins s))"
proof (cases "get_auth_token e s")
  case (Pair res s1)
  then have s1: "s1 = emit POST_auth s" using get_auth_token_state [of e s] by simp
  show ?thesis
    using assms Pair
    by (auto simp: update_order_status_details_def Let_def s1 grows_emit grows_emit2
             split: sum.splits reply.splits)
qed

lemma send_message_grows:
  assumes "P POST_auth" "\<And>tok b. P (POST_order_comments tok b)"
  shows "grows P s (snd (send_message_to_internal_chat e oid m s))"
proof (cases "get_auth_token e s")
  case (Pair res s1)
  then have s1: "s1 = emit POST_auth s" using get_auth_token_state [of e s] by simp
  show ?thesis
    using assms Pair
    by (auto simp: send_message_to_internal_chat_def Let_def s1 grows_emit grows_emit2
             split: sum.splits reply.splits)
qed

lemma get_order_emergency_grows:
  assumes "\<And>p c q. P (Chain_run p c q)" "\<And>n. P (Sleep n)"
  shows "grows P s (snd (get_order_emergency depth e p c q s))"
proof (induction depth arbitrary: s)
  case 0 show ?case by (simp add: grows_refl)
next
  case (Suc depth)
  have a: "grows P s (emit (Chain_run p c q) s)" by (simp add: grows_emit assms)
  have b: "grows P s (emit (Sleep WAIT_TIME_IN_SEC) (emit (Chain_run p c q) s))"
    by (simp add: grows_emit2 grows_emit assms)
  show ?case
    using a grows_trans [OF b Suc] by (simp add: Let_def split: chain_outcome.splits)
qed

lemma quiet_simps [simp]:
  "quiet POST_auth" "quiet (GET_order_info i t)" "quiet (Chain_run p c q)" "quiet (Sleep n)"
  "\<not> quiet (PUT_order_status i t b)" "\<not> quiet (POST_order_comments t b)" "\<not> quiet (Save_record c r)"
  by (simp_all add: quiet_def)

lemma read_order_grows: "grows quiet s (snd (snd (read_order e config oid r s)))"
proof -
  have "grows quiet s (snd (get_order_details_by_id e oid s))"
    by (rule get_order_details_grows) simp_all
  then show ?thesis
    by (cases "get_order_details_by_id e oid s")
       (auto simp: read_order_def Let_def split: sum.splits)
qed

lemma classify_order_grows: "grows quiet s (snd (snd (classify_order e config client r s)))"
proof -
  have "\<And>q. grows quiet s (snd (get_order_emergency (recursion_limit e) e (emergency_prompt config) client q s))"
    by (rule get_order_emergency_grows) simp_all
  then show ?thesis
    by (auto simp: classify_order_def Let_def grows_refl split: option.splits prod.splits sum.splits)
       (metis snd_conv)+
qed

lemma dispatch_order_grows:
  "grows (\<lambda>ev. \<not> is_save ev) s (snd (snd (dispatch_order e config oid r s)))"
proof -
  have a: "\<And>ids s. grows (\<lambda>ev. \<not> is_save ev) s
            (snd (update_order_status_details e oid RESPONSIBLE_DEPT_ID (IN_PROGRESS e) ids [AI_USER_ID] s))"
    by (rule update_order_status_grows) simp_all
  have b: "\<And>s. grows (\<lambda>ev. \<not> is_save ev) s
            (snd (send_message_to_internal_chat e oid ORDER_PROCESSED_BY_AI_MESSAGE s))"
    by (rule send_message_grows) simp_all
  show ?thesis
    apply (auto simp: dispatch_order_def Let_def grows_refl split: option.splits prod.splits sum.splits)
    apply (metis a snd_conv)
    apply (metis a b grows_trans snd_conv)
    apply (metis a b grows_trans snd_conv)
    done
qed

lemma dispatch_order_quiet:
  "\<not> is_use_order_updating config \<or> is_emergency r \<noteq> Some True \<or> \<not> is_use_emergency_classification config
   \<Longrightarrow> dispatch_order e config oid r s = (x, r', s') \<Longrightarrow> s' = s"
  by (auto simp: dispatch_order_def Let_def split: option.splits if_splits)


lemma read_order_keeps:
  "read_order e config oid r s = (x, r', s') \<Longrightarrow>
     is_error r' = is_error r \<and> comment r' = comment r \<and> record_id r' = record_id r \<and>
     order_id r' = order_id r"
  by (auto simp: read_order_def Let_def split: prod.splits sum.splits if_splits)

lemma classify_order_keeps:
  "classify_order e config client r s = (x, r', s') \<Longrightarrow>
     is_error r' = is_error r \<and> comment r' = comment r \<and> record_id r' = record_id r \<and>
     order_id r' = order_id r"
  by (auto simp: classify_order_def Let_def split: prod.splits sum.splits if_splits option.splits)



lemma new_events_save:
  "grows P s s0 \<Longrightarrow>
   new_events s (snd (save_order_classification_record r client s0)) =
     new_events s s0 @ [Save_record client r]"
  by (auto simp: grows_def new_events_def save_order_classification_record_def Let_def)

lemma gate_failure:
  assumes "check_request e body client s = Inl x"
  shows "get_emergency_class e body client s =
           save_order_classification_record
             ((new_record body)\<lparr>is_error := True, comment := Some (error_comment x)\<rparr>) client s"
  using assms by (simp add: get_emergency_class_def get_emergency_class_try_def)

lemma new_events_only_save:
  "new_events s (snd (save_order_classification_record r client s)) = [Save_record client r]"
  by (simp add: new_events_def save_order_classification_record_def Let_def)

lemma save_returns:
  "fst (save_order_classification_record r client s) = r\<lparr>record_id := stored_id r client s\<rparr>"
  by (simp add: save_order_classification_record_def Let_def)

lemma upsert_row_new:
  "find (\<lambda>(c, r). c = client \<and> order_id r = order_id saved) rows = None \<Longrightarrow>
   upsert_row client saved rows = rows @ [(client, saved)]"
  by (induction rows) (auto split: if_splits)



lemma save_inserts:
  "get_saved_record_by_order_id (order_id r) client s = None \<Longrightarrow>
   history (snd (save_order_classification_record r client s)) =
     history s @ [(client, fst (save_order_classification_record r client s))]"
  by (simp add: save_order_classification_record_def Let_def get_saved_record_by_order_id_def
                upsert_row_new)



lemma check_request_no_record:
  "check_request e body client s = Inr config \<Longrightarrow>
   get_saved_record_by_order_id (orderId body) client s = None"
  by (auto simp: check_request_def split: option.splits if_splits)

lemma get_order_emergency_unfold:
  "0 < depth \<Longrightarrow>
   get_order_emergency depth e prompt client query s =
     (let s1 = emit (Chain_run prompt client query) s in
      case chain_run e (length (filter is_chain_run (trace s))) prompt client query of
        Answer label \<Rightarrow> (Inr label, s1)
      | Fails x \<Rightarrow> (Inl x, s1)
      | RateLimitError \<Rightarrow>
          get_order_emergency (depth - 1) e prompt client query (emit (Sleep WAIT_TIME_IN_SEC) s1))"
  by (cases depth) (simp_all add: Let_def split: chain_outcome.splits)

lemmas example_defs =
  demo_env_def demo_request_def demo_config_def demo_details_def empty_state_def ok_json_def
  simple_lower_def

lemmas pipeline_defs =
  get_emergency_class_def get_emergency_class_try_def check_request_def read_order_def
  classify_order_def dispatch_order_def new_record_def get_saved_record_by_order_id_def
  save_order_classification_record_def stored_id_def get_order_details_by_id_def
  get_auth_token_def update_order_status_details_def send_message_to_internal_chat_def emit_def
  get_responsible_users_ids_by_order_address_def disabled_field_msg_def
  RESPONSIBLE_DEPT_ID_def AI_USER_ID_def WAIT_TIME_IN_SEC_def EMERGENCY_LABEL_def strip_def
  Let_def

section \<open>Properties of the orchestrator\<close>



text \<open>
  Claim C7. An order that is not in the history yet and whose status is not the pending one
  is rejected at the status gate: the record comes back with the error flag and the detail
  of the gate as its comment, and the only effect of the run is the write of that record to
  the history; in particular neither the status of the order is updated nor a chat message
  posted.
\<close>

theorem status_gate_rejects:
  assumes "get_saved_record_by_order_id (orderId body) client s = None"
      and "orderStatusId body \<noteq> PENDING e"
  shows "is_error (fst (get_emergency_class e body client s)) \<and>
         comment (fst (get_emergency_class e body client s)) = Some (invalid_status_detail e body) \<and>
         filter is_update (new_events s (snd (get_emergency_class e body client s))) = [] \<and>
         new_events s (snd (get_emergency_class e body client s)) =
           [Save_record client
              ((new_record body)\<lparr>is_error := True, comment := Some (invalid_status_detail e body)\<rparr>)]"
proof -
  have "check_request e body client s = Inl (HTTPException 400 (invalid_status_detail e body))"
    using assms by (simp add: check_request_def invalid_status_detail_def)
  from gate_failure [OF this] show ?thesis
    by (simp add: new_events_only_save) (simp add: save_order_classification_record_def Let_def)
qed

theorem status_gate_rejects_witness:
  "is_error (fst (get_emergency_class demo_env closed_request (ascii ''vysota'') empty_state)) \<and>
   filter is_update (new_events empty_state
      (snd (get_emergency_class demo_env closed_request (ascii ''vysota'') empty_state))) = []"
proof -
  have a: "get_saved_record_by_order_id (orderId closed_request) (ascii ''vysota'') empty_state = None"
    by (simp add: get_saved_record_by_order_id_def empty_state_def)
  have b: "orderStatusId closed_request \<noteq> PENDING demo_env"
    by (simp add: closed_request_def demo_env_def)
  from status_gate_rejects [OF a b] show ?thesis by simp
qed




lemma scan_address_list_ex:
  "scan_address_list e as order_addr = list_ex (\<lambda>a. py_in (lower e a) (lower e order_addr)) as"
  by (induction as) auto

lemma scan_uds_list_find:
  "scan_uds_list e us order_addr =
     map_option (\<lambda>u. [uds_user_id u]) (find (\<lambda>u. unit_matches e u order_addr) us)"
  by (induction us) (auto simp: scan_address_list_ex unit_matches_def)

lemma find_first:
  "\<forall>v \<in> set before. \<not> P v \<Longrightarrow> P u \<Longrightarrow> find P (before @ u # after) = Some u"
  by (induction before) auto

section \<open>Properties of the resolver\<close>

text \<open>
  Claim C6. For every address and every list of units the resolver of the source, two nested
  loops with an early return, computes the resolver of the spec: the id of the first unit,
  in the order of the list, one of whose addresses is contained in the order address after
  both are put in lower case. It returns \<^verbatim>\<open>None\<close> exactly when no unit matches, and a
  matching unit with no matching unit before it wins whatever comes after it; so of two
  matching units, one with a prefix of the other's address, the one listed first is
  returned.
\<close>

theorem resolver_first_match:
  "get_responsible_users_ids_by_order_address e order_addr = first_matching_unit e order_addr \<and>
   (get_responsible_users_ids_by_order_address e order_addr = None \<longleftrightarrow>
      (\<forall>v \<in> set (RESPONSIBLE_UDS_LIST e). \<not> unit_matches e v order_addr)) \<and>
   (\<forall>before u after.
      RESPONSIBLE_UDS_LIST e = before @ u # after \<and>
      (\<forall>v \<in> set before. \<not> unit_matches e v order_addr) \<and> unit_matches e u order_addr \<longrightarrow>
      get_responsible_users_ids_by_order_address e order_addr = Some [uds_user_id u])"
proof -
  have a: "get_responsible_users_ids_by_order_address e order_addr = first_matching_unit e order_addr"
    by (simp add: get_responsible_users_ids_by_order_address_def first_matching_unit_def
                  scan_uds_list_find)
  show ?thesis
    unfolding a
    by (auto simp: first_matching_unit_def find_None_iff find_first)
qed

theorem resolver_first_match_witness:
  "get_responsible_users_ids_by_order_address
     (demo_env\<lparr>RESPONSIBLE_UDS_LIST := [short_unit, long_unit]\<rparr>) (ascii ''ul. Lenina 5'') = Some [7] \<and>
   get_responsible_users_ids_by_order_address
     (demo_env\<lparr>RESPONSIBLE_UDS_LIST := [long_unit, short_unit]\<rparr>) (ascii ''ul. Lenina 5'') = Some [8]"
proof -
  let ?e1 = "demo_env\<lparr>RESPONSIBLE_UDS_LIST := [short_unit, long_unit]\<rparr>"
  let ?e2 = "demo_env\<lparr>RESPONSIBLE_UDS_LIST := [long_unit, short_unit]\<rparr>"
  have m: "unit_matches ?e1 short_unit (ascii ''ul. Lenina 5'')"
          "unit_matches ?e2 long_unit (ascii ''ul. Lenina 5'')"
    by (simp_all add: unit_matches_def short_unit_def long_unit_def demo_env_def simple_lower_def
                      ascii_def)
  have "RESPONSIBLE_UDS_LIST ?e1 = [] @ short_unit # [long_unit]"
       "RESPONSIBLE_UDS_LIST ?e2 = [] @ long_unit # [short_unit]"
    by simp_all
  with m resolver_first_match [of ?e1 "ascii ''ul. Lenina 5''"]
    resolver_first_match [of ?e2 "ascii ''ul. Lenina 5''"]
  show ?thesis
    by (metis empty_iff empty_set short_unit_def long_unit_def uds.select_convs(1))
qed

section \<open>Properties of the classification engine\<close>

lemma engine_retries:
  assumes "n < depth"
      and "\<forall>i<n. chain_run e (chain_calls s + i) p c q = RateLimitError"
      and "chain_result (chain_run e (chain_calls s + n) p c q) = Some res"
  shows "get_order_emergency depth e p c q s =
           (res, s\<lparr>trace := trace s @ retries n p c q @ [Chain_run p c q]\<rparr>)"
  using assms
proof (induction n arbitrary: depth s)
  case 0
  then obtain d where d: "depth = Suc d" by (cases depth) auto
  from 0 show ?case
    by (cases "chain_run e (chain_calls s) p c q")
       (auto simp: d retries_def emit_def chain_calls_def)
next
  case (Suc n)
  then obtain d where d: "depth = Suc d" and nd: "n < d" by (cases depth) auto
  let ?s' = "emit (Sleep WAIT_TIME_IN_SEC) (emit (Chain_run p c q) s)"
  have cc: "chain_calls ?s' = Suc (chain_calls s)"
    by (simp add: chain_calls_def emit_def)
  from Suc.prems(2) have first: "chain_run e (chain_calls s) p c q = RateLimitError"
    by (metis add.right_neutral zero_less_Suc)
  have rest: "\<forall>i<n. chain_run e (chain_calls ?s' + i) p c q = RateLimitError"
    using Suc.prems(2) by (simp add: cc) (metis Suc_less_eq add_Suc_right)
  have last: "chain_result (chain_run e (chain_calls ?s' + n) p c q) = Some res"
    using Suc.prems(3) by (simp add: cc)
  have "get_order_emergency depth e p c q s = get_order_emergency d e p c q ?s'"
    using first by (simp add: d chain_calls_def Let_def)
  also have "\<dots> = (res, ?s'\<lparr>trace := trace ?s' @ retries n p c q @ [Chain_run p c q]\<rparr>)"
    by (rule Suc.IH [OF nd rest last])
  finally show ?case by (simp add: retries_def emit_def)
qed

lemma engine_exhausted:
  assumes "\<forall>i<depth. chain_run e (chain_calls s + i) p c q = RateLimitError"
  shows "get_order_emergency depth e p c q s =
           (Inl (Exception (recursion_error e)), s\<lparr>trace := trace s @ retries depth p c q\<rparr>)"
  using assms
proof (induction depth arbitrary: s)
  case 0 show ?case by (simp add: retries_def)
next
  case (Suc d)
  let ?s' = "emit (Sleep WAIT_TIME_IN_SEC) (emit (Chain_run p c q) s)"
  have cc: "chain_calls ?s' = Suc (chain_calls s)"
    by (simp add: chain_calls_def emit_def)
  from Suc.prems have first: "chain_run e (chain_calls s) p c q = RateLimitError"
    by (metis add.right_neutral zero_less_Suc)
  have rest: "\<forall>i<d. chain_run e (chain_calls ?s' + i) p c q = RateLimitError"
    using Suc.prems by (simp add: cc) (metis Suc_less_eq add_Suc_right)
  have "get_order_emergency (Suc d) e p c q s = get_order_emergency d e p c q ?s'"
    using first by (simp add: chain_calls_def Let_def)
  also have "\<dots> = (Inl (Exception (recursion_error e)), ?s'\<lparr>trace := trace ?s' @ retries d p c q\<rparr>)"
    by (rule Suc.IH [OF rest])
  finally show ?case by (simp add: retries_def emit_def)
qed

lemma same_view_emit: "same_view s s' \<Longrightarrow> same_view (emit ev s) (emit ev s')"
  by (simp add: same_view_def emit_def)

lemma same_view_refl: "same_view s s"
  by (simp add: same_view_def)

lemma token_of_chain_run [simp]: "token_of (e\<lparr>chain_run := f\<rparr>) j = token_of e j"
  by (cases j) simp_all

lemma auth_same_view:
  assumes "same_view s s'"
  shows "fst (get_auth_token (e\<lparr>chain_run := f\<rparr>) s') = fst (get_auth_token e s) \<and>
         same_view (snd (get_auth_token e s)) (snd (get_auth_token (e\<lparr>chain_run := f\<rparr>) s'))"
proof -
  have n: "length (filter is_auth (trace s')) = length (filter is_auth (trace s))"
    using assms by (simp add: same_view_def)
  have "fst (get_auth_token (e\<lparr>chain_run := f\<rparr>) s') = fst (get_auth_token e s)"
    by (cases "auth_reply e (length (filter is_auth (trace s)))")
       (auto simp: get_auth_token_def Let_def n split: sum.splits json.splits option.splits)
  then show ?thesis
    using assms by (simp add: get_auth_token_state same_view_emit)
qed

lemma update_same_view:
  assumes "same_view s s'"
  shows "fst (update_order_status_details (e\<lparr>chain_run := f\<rparr>) oid d st us ins s') =
           fst (update_order_status_details e oid d st us ins s) \<and>
         same_view (snd (update_order_status_details e oid d st us ins s))
                   (snd (update_order_status_details (e\<lparr>chain_run := f\<rparr>) oid d st us ins s'))"
proof -
  obtain a s1 where a: "get_auth_token e s = (a, s1)" by (cases "get_auth_token e s") auto
  obtain a' s1' where a': "get_auth_token (e\<lparr>chain_run := f\<rparr>) s' = (a', s1')"
    by (cases "get_auth_token (e\<lparr>chain_run := f\<rparr>) s'") auto
  from auth_same_view [OF assms, where e = e and f = f] a a' have eq: "a' = a" and sv: "same_view s1 s1'" by simp_all
  show ?thesis
    using sv
    by (auto simp: update_order_status_details_def a a' eq Let_def same_view_emit
             split: sum.splits reply.splits)
qed

lemma send_same_view:
  assumes "same_view s s'"
  shows "fst (send_message_to_internal_chat (e\<lparr>chain_run := f\<rparr>) oid m s') =
           fst (send_message_to_internal_chat e oid m s) \<and>
         same_view (snd (send_message_to_internal_chat e oid m s))
                   (snd (send_message_to_internal_chat (e\<lparr>chain_run := f\<rparr>) oid m s'))"
proof -
  obtain a s1 where a: "get_auth_token e s = (a, s1)" by (cases "get_auth_token e s") auto
  obtain a' s1' where a': "get_auth_token (e\<lparr>chain_run := f\<rparr>) s' = (a', s1')"
    by (cases "get_auth_token (e\<lparr>chain_run := f\<rparr>) s'") auto
  from auth_same_view [OF assms, where e = e and f = f] a a' have eq: "a' = a" and sv: "same_view s1 s1'" by simp_all
  show ?thesis
    using sv
    by (auto simp: send_message_to_internal_chat_def a a' eq Let_def same_view_emit
             split: sum.splits reply.splits)
qed

lemma dispatch_same_view:
  assumes "same_view s s'"
  shows "fst (dispatch_order (e\<lparr>chain_run := f\<rparr>) config oid r s') = fst (dispatch_order e config oid r s) \<and>
         fst (snd (dispatch_order (e\<lparr>chain_run := f\<rparr>) config oid r s')) =
           fst (snd (dispatch_order e config oid r s)) \<and>
         same_view (snd (snd (dispatch_order e config oid r s)))
                   (snd (snd (dispatch_order (e\<lparr>chain_run := f\<rparr>) config oid r s')))"
proof -
  let ?e' = "e\<lparr>chain_run := f\<rparr>"
  have res: "get_responsible_users_ids_by_order_address ?e' = get_responsible_users_ids_by_order_address e"
  proof
    fix a
    have "\<And>as. scan_address_list ?e' as a = scan_address_list e as a"
      subgoal for as by (induction as) auto done
    then have "\<And>us. scan_uds_list ?e' us a = scan_uds_list e us a"
      subgoal for us by (induction us) auto done
    then show "get_responsible_users_ids_by_order_address ?e' a = get_responsible_users_ids_by_order_address e a"
      by (simp add: get_responsible_users_ids_by_order_address_def)
  qed
  {
    fix ids
    obtain u s1 where u: "update_order_status_details e oid RESPONSIBLE_DEPT_ID (IN_PROGRESS e) ids [AI_USER_ID] s = (u, s1)"
      by (cases "update_order_status_details e oid RESPONSIBLE_DEPT_ID (IN_PROGRESS e) ids [AI_USER_ID] s") auto
    obtain u' s1' where u': "update_order_status_details ?e' oid RESPONSIBLE_DEPT_ID (IN_PROGRESS e) ids [AI_USER_ID] s' = (u', s1')"
      by (cases "update_order_status_details ?e' oid RESPONSIBLE_DEPT_ID (IN_PROGRESS e) ids [AI_USER_ID] s'") auto
    from update_same_view [OF assms, where e = e and f = f and oid = oid and d = RESPONSIBLE_DEPT_ID and st = "IN_PROGRESS e" and us = ids and ins = "[AI_USER_ID]"] u u'
    have ueq: "u' = u" and sv1: "same_view s1 s1'" by simp_all
    obtain m s2 where m: "send_message_to_internal_chat e oid ORDER_PROCESSED_BY_AI_MESSAGE s1 = (m, s2)"
      by (cases "send_message_to_internal_chat e oid ORDER_PROCESSED_BY_AI_MESSAGE s1") auto
    obtain m' s2' where m': "send_message_to_internal_chat ?e' oid ORDER_PROCESSED_BY_AI_MESSAGE s1' = (m', s2')"
      by (cases "send_message_to_internal_chat ?e' oid ORDER_PROCESSED_BY_AI_MESSAGE s1'") auto
    from send_same_view [OF sv1, where e = e and f = f and oid = oid and m = ORDER_PROCESSED_BY_AI_MESSAGE] m m'
    have meq: "m' = m" and sv2: "same_view s2 s2'" by simp_all
    have "\<exists>u s1 s1' m s2 s2'.
            update_order_status_details e oid RESPONSIBLE_DEPT_ID (IN_PROGRESS e) ids [AI_USER_ID] s = (u, s1) \<and>
            update_order_status_details ?e' oid RESPONSIBLE_DEPT_ID (IN_PROGRESS e) ids [AI_USER_ID] s' = (u, s1') \<and>
            same_view s1 s1' \<and>
            send_message_to_internal_chat e oid ORDER_PROCESSED_BY_AI_MESSAGE s1 = (m, s2) \<and>
            send_message_to_internal_chat ?e' oid ORDER_PROCESSED_BY_AI_MESSAGE s1' = (m, s2') \<and>
            same_view s2 s2'"
      using u u' ueq sv1 m m' meq sv2 by blast
  }
  note calls = this
  show ?thesis
  proof (cases "is_emergency r = Some True \<and> is_use_emergency_classification config")
    case False
    then show ?thesis using assms by (auto simp: dispatch_order_def)
  next
    case True
    show ?thesis
    proof (cases "order_address r")
      case None
      with True assms show ?thesis by (simp add: dispatch_order_def)
    next
      case (Some address)
      show ?thesis
      proof (cases "get_responsible_users_ids_by_order_address e address")
        case None
        with True Some assms show ?thesis by (simp add: dispatch_order_def res)
      next
        case ids: (Some ids)
        from calls [of ids] obtain u s1 s1' m s2 s2' where
          c: "update_order_status_details e oid RESPONSIBLE_DEPT_ID (IN_PROGRESS e) ids [AI_USER_ID] s = (u, s1)"
             "update_order_status_details ?e' oid RESPONSIBLE_DEPT_ID (IN_PROGRESS e) ids [AI_USER_ID] s' = (u, s1')"
             "same_view s1 s1'"
             "send_message_to_internal_chat e oid ORDER_PROCESSED_BY_AI_MESSAGE s1 = (m, s2)"
             "send_message_to_internal_chat ?e' oid ORDER_PROCESSED_BY_AI_MESSAGE s1' = (m, s2')"
             "same_view s2 s2'"
          by blast
        show ?thesis
          using True Some ids c assms
          by (auto simp: dispatch_order_def res Let_def split: sum.splits)
      qed
    qed
  qed
qed

lemma read_order_emits:
  assumes "P POST_auth" "\<And>tok. P (GET_order_info oid tok)"
  shows "grows P s (snd (snd (read_order e config oid r s)))"
proof -
  have "grows P s (snd (get_order_details_by_id e oid s))"
    by (rule get_order_details_grows) (rule assms)+
  then show ?thesis
    by (cases "get_order_details_by_id e oid s")
       (auto simp: read_order_def Let_def split: sum.splits)
qed

lemma grows_chain_calls: "grows (\<lambda>ev. \<not> is_chain_run ev) s s' \<Longrightarrow> chain_calls s' = chain_calls s"
  by (auto simp: grows_def chain_calls_def list_all_iff filter_empty_conv)

lemma grows_same_view: "grows (\<lambda>ev. \<not> is_auth ev) s s' \<Longrightarrow> same_view s s'"
  by (auto simp: grows_def same_view_def list_all_iff filter_empty_conv)

lemma same_view_trans: "same_view s s1 \<Longrightarrow> same_view s1 s2 \<Longrightarrow> same_view s s2"
  by (simp add: same_view_def)

lemma same_view_sym: "same_view s s1 \<Longrightarrow> same_view s1 s"
  by (simp add: same_view_def)

lemma scan_order_form_chain_run [simp]:
  "scan_order_form (e\<lparr>chain_run := f\<rparr>) fs found = scan_order_form e fs found"
  by (induction fs arbitrary: found) auto

lemma scan_summary_chain_run [simp]:
  "scan_summary (e\<lparr>chain_run := f\<rparr>) fs found = scan_summary e fs found"
  by (induction fs arbitrary: found) auto

lemma get_auth_token_chain_run [simp]:
  "get_auth_token (e\<lparr>chain_run := f\<rparr>) s = get_auth_token e s"
  by (simp add: get_auth_token_def Let_def split: reply.splits sum.splits)

lemma get_order_details_chain_run [simp]:
  "get_order_details_by_id (e\<lparr>chain_run := f\<rparr>) oid s = get_order_details_by_id e oid s"
  by (simp add: get_order_details_by_id_def Let_def split: prod.splits sum.splits reply.splits)

lemma read_order_chain_run [simp]:
  "read_order (e\<lparr>chain_run := f\<rparr>) config oid r s = read_order e config oid r s"
  by (simp add: read_order_def Let_def split: prod.splits sum.splits)

lemma check_request_chain_run [simp]:
  "check_request (e\<lparr>chain_run := f\<rparr>) body client s = check_request e body client s"
  by (simp add: check_request_def split: option.splits)

lemma save_same_view:
  "same_view s s' \<Longrightarrow>
   fst (save_order_classification_record r client s') = fst (save_order_classification_record r client s) \<and>
   history (snd (save_order_classification_record r client s')) =
     history (snd (save_order_classification_record r client s))"
  by (auto simp: save_order_classification_record_def Let_def same_view_def stored_id_def
                 get_saved_record_by_order_id_def split: option.splits)

lemma retries_no_auth: "filter is_auth (retries n p c q) = []"
  by (induction n) (simp_all add: retries_def)

lemma run_same_view:
  assumes "n < recursion_limit e"
      and "\<forall>i<n. \<forall>p c q. chain_run e (chain_calls s + i) p c q = RateLimitError"
      and "\<forall>p c q. chain_run e (chain_calls s + n) p c q = Answer (answer p c q)"
  shows "fst (get_emergency_class e body client s) =
           fst (get_emergency_class (e\<lparr>chain_run := \<lambda>i p c q. Answer (answer p c q)\<rparr>) body client s) \<and>
         history (snd (get_emergency_class e body client s)) =
           history (snd (get_emergency_class (e\<lparr>chain_run := \<lambda>i p c q. Answer (answer p c q)\<rparr>) body client s))"
proof -
  let ?f = "\<lambda>i p c q. Answer (answer p c q)"
  let ?e0 = "e\<lparr>chain_run := ?f\<rparr>"
  let ?r = "new_record body"
  have fin: "\<And>x r s1 s1'. same_view s1 s1' \<Longrightarrow>
     get_emergency_class_try e body client ?r s = (x, r, s1) \<Longrightarrow>
     get_emergency_class_try ?e0 body client ?r s = (x, r, s1') \<Longrightarrow> ?thesis"
    using save_same_view
    by (auto simp: get_emergency_class_def split: option.splits)
  show ?thesis
  proof (cases "check_request e body client s")
    case (Inl x)
    then show ?thesis by (intro fin [of s s]) (simp_all add: get_emergency_class_try_def same_view_refl)
  next
    case (Inr config)
    obtain x1 r1 s1 where ro: "read_order e config (orderId body) ?r s = (x1, r1, s1)"
      by (cases "read_order e config (orderId body) ?r s") auto
    have g: "grows (\<lambda>ev. \<not> is_chain_run ev) s s1"
      using read_order_emits [of "\<lambda>ev. \<not> is_chain_run ev" "orderId body" s e config ?r] ro by simp
    have cc: "chain_calls s1 = chain_calls s" by (rule grows_chain_calls [OF g])
    show ?thesis
    proof (cases x1)
      case (Some x)
      with Inr ro show ?thesis
        by (intro fin [of s1 s1]) (simp_all add: get_emergency_class_try_def same_view_refl)
    next
      case None
      have "\<exists>x2 r2 s2 s2'. classify_order e config client r1 s1 = (x2, r2, s2) \<and>
              classify_order ?e0 config client r1 s1 = (x2, r2, s2') \<and> same_view s2 s2'"
      proof (cases "is_use_emergency_classification config")
        case False
        then show ?thesis by (simp add: classify_order_def same_view_refl)
      next
        case True
        show ?thesis
        proof (cases "order_query r1")
          case None
          with True show ?thesis by (simp add: classify_order_def same_view_refl)
        next
          case (Some query)
          let ?q = "normalize_resident_request_string query"
          let ?p = "emergency_prompt config"
          have a: "get_order_emergency (recursion_limit e) e ?p client ?q s1 =
                     (Inr (answer ?p client ?q),
                      s1\<lparr>trace := trace s1 @ retries n ?p client ?q @ [Chain_run ?p client ?q]\<rparr>)"
            by (rule engine_retries) (use assms in \<open>simp_all add: cc\<close>)
          have b: "get_order_emergency (recursion_limit ?e0) ?e0 ?p client ?q s1 =
                     (Inr (answer ?p client ?q),
                      s1\<lparr>trace := trace s1 @ retries 0 ?p client ?q @ [Chain_run ?p client ?q]\<rparr>)"
            by (rule engine_retries) (use assms in simp_all)
          have "same_view (s1\<lparr>trace := trace s1 @ retries n ?p client ?q @ [Chain_run ?p client ?q]\<rparr>)
                  (s1\<lparr>trace := trace s1 @ retries 0 ?p client ?q @ [Chain_run ?p client ?q]\<rparr>)"
            by (simp add: same_view_def retries_no_auth)
          with True Some a b show ?thesis
            by (simp add: classify_order_def Let_def)
        qed
      qed
      then obtain x2 r2 s2 s2' where
        co: "classify_order e config client r1 s1 = (x2, r2, s2)"
            "classify_order ?e0 config client r1 s1 = (x2, r2, s2')" and sv: "same_view s2 s2'"
        by blast
      show ?thesis
      proof (cases x2)
        case (Some x)
        with Inr ro None co sv show ?thesis
          by (intro fin [of s2 s2']) (simp_all add: get_emergency_class_try_def)
      next
        case n2: None
        obtain x3 r3 s3 where d: "dispatch_order e config (orderId body) r2 s2 = (x3, r3, s3)"
          by (cases "dispatch_order e config (orderId body) r2 s2") auto
        obtain x3' r3' s3' where d': "dispatch_order ?e0 config (orderId body) r2 s2' = (x3', r3', s3')"
          by (cases "dispatch_order ?e0 config (orderId body) r2 s2'") auto
        from dispatch_same_view [OF sv, where e = e and f = ?f and config = config
            and oid = "orderId body" and r = r2] d d'
        have "x3' = x3" "r3' = r3" "same_view s3 s3'" by simp_all
        with Inr ro None co n2 d d' show ?thesis
          by (intro fin [of s3 s3']) (simp_all add: get_emergency_class_try_def)
      qed
    qed
  qed
qed

text \<open>
  Claim C4, as the code has it. When the first \<open>n\<close> calls of the chain are throttled and the
  next one is not, the engine makes \<open>n + 1\<close> identical calls with a wait of 60 seconds after
  each throttled one, and returns what the last call gives: its label, or its exception
  right away when it fails for another reason; the record that the orchestrator returns and
  stores is then the one of a run whose first call is answered. The engine counts no
  attempts, but every retry is a nested call of the engine, so all this holds for the \<open>n\<close>
  that fit the interpreter's stack: when the calls are throttled until the stack is used up,
  the engine stops retrying and Python's \<^verbatim>\<open>RecursionError\<close> leaves it like any other
  failure.
\<close>

theorem rate_limit_retries:
  "(n < depth \<and>
    (\<forall>i<n. chain_run e (chain_calls s + i) p c q = RateLimitError) \<and>
    chain_result (chain_run e (chain_calls s + n) p c q) = Some res \<longrightarrow>
    get_order_emergency depth e p c q s =
      (res, s\<lparr>trace := trace s @ retries n p c q @ [Chain_run p c q]\<rparr>)) \<and>
   (n < recursion_limit e \<and>
    (\<forall>i<n. \<forall>p c q. chain_run e (chain_calls s + i) p c q = RateLimitError) \<and>
    (\<forall>p c q. chain_run e (chain_calls s + n) p c q = Answer (answer p c q)) \<longrightarrow>
    fst (get_emergency_class e body client s) =
      fst (get_emergency_class (e\<lparr>chain_run := \<lambda>i p c q. Answer (answer p c q)\<rparr>) body client s) \<and>
    history (snd (get_emergency_class e body client s)) =
      history (snd (get_emergency_class (e\<lparr>chain_run := \<lambda>i p c q. Answer (answer p c q)\<rparr>)
                      body client s))) \<and>
   ((\<forall>i<depth. chain_run e (chain_calls s + i) p c q = RateLimitError) \<longrightarrow>
    get_order_emergency depth e p c q s =
      (Inl (Exception (recursion_error e)), s\<lparr>trace := trace s @ retries depth p c q\<rparr>))"
  using engine_retries [of n depth e s p c q res] run_same_view [of n e s answer body client]
    engine_exhausted [of depth e s p c q]
  by blast

theorem rate_limit_retries_witness:
  "get_order_emergency 900 throttled_env (ascii ''prompt'') (ascii ''vysota'') (ascii ''text'')
     empty_state =
     (Inr EMERGENCY_LABEL,
      \<lparr>history = [],
       trace = [Chain_run (ascii ''prompt'') (ascii ''vysota'') (ascii ''text''), Sleep 60,
                Chain_run (ascii ''prompt'') (ascii ''vysota'') (ascii ''text''), Sleep 60,
                Chain_run (ascii ''prompt'') (ascii ''vysota'') (ascii ''text'')]\<rparr>) \<and>
   fst (get_emergency_class throttled_env demo_request (ascii ''vysota'') empty_state) =
     fst (get_emergency_class (throttled_env\<lparr>chain_run := \<lambda>i p c q. Answer EMERGENCY_LABEL\<rparr>)
            demo_request (ascii ''vysota'') empty_state)"
proof -
  have cc: "chain_calls empty_state = 0" by (simp add: chain_calls_def empty_state_def)
  have a: "(2::nat) < 900" by simp
  have b: "\<forall>i<2. \<forall>p c q. chain_run throttled_env (chain_calls empty_state + i) p c q = RateLimitError"
    by (simp add: throttled_env_def cc)
  have c: "\<forall>p c q. chain_run throttled_env (chain_calls empty_state + 2) p c q = Answer EMERGENCY_LABEL"
    by (simp add: throttled_env_def cc)
  have d: "(2::nat) < recursion_limit throttled_env" by (simp add: throttled_env_def demo_env_def)
  have e: "chain_result (chain_run throttled_env (chain_calls empty_state + 2)
             (ascii ''prompt'') (ascii ''vysota'') (ascii ''text'')) = Some (Inr EMERGENCY_LABEL)"
    using c by simp
  note retry =
    rate_limit_retries [of 2 900 throttled_env empty_state "ascii ''prompt''" "ascii ''vysota''"
        "ascii ''text''" "Inr EMERGENCY_LABEL" "\<lambda>p c q. EMERGENCY_LABEL" demo_request "ascii ''vysota''"]
  show ?thesis
    using retry [THEN conjunct1] retry [THEN conjunct2, THEN conjunct1] a b c d e
    by (simp add: retries_def empty_state_def WAIT_TIME_IN_SEC_def numeral_2_eq_2)
qed

text \<open>
  The claim as stated fails when the stack is used up first: with room for two nested calls
  and two throttled calls, the third call of the chain would answer, but the engine raises
  \<^verbatim>\<open>RecursionError\<close> instead of making it, and the run ends with an error record where the
  run that is not throttled ends without one.
\<close>

theorem retry_exhausts_stack:
  "chain_run shallow_env 2 (emergency_prompt demo_config) (ascii ''vysota'') (ascii ''text'') =
     Answer EMERGENCY_LABEL \<and>
   fst (get_order_emergency (recursion_limit shallow_env) shallow_env (emergency_prompt demo_config)
          (ascii ''vysota'') (ascii ''text'') empty_state) =
     Inl (Exception (recursion_error shallow_env)) \<and>
   is_error (fst (get_emergency_class shallow_env demo_request (ascii ''vysota'') empty_state)) \<and>
   \<not> is_error (fst (get_emergency_class
                       (shallow_env\<lparr>chain_run := \<lambda>i p c q. Answer EMERGENCY_LABEL\<rparr>)
                       demo_request (ascii ''vysota'') empty_state))"
  by (simp add: pipeline_defs example_defs normalizer_eval get_order_emergency_unfold
                shallow_env_def throttled_env_def)

section \<open>Properties of classification and dispatch\<close>

lemma check_request_config:
  "check_request e body client s = Inr config \<Longrightarrow> get_default_config e client = Some config"
  by (auto simp: check_request_def split: option.splits if_splits)

lemma read_order_keeps_label:
  "read_order e config oid r s = (x, r', s') \<Longrightarrow>
     order_emergency r' = order_emergency r \<and> is_emergency r' = is_emergency r"
  by (auto simp: read_order_def Let_def split: prod.splits sum.splits if_splits)

lemma dispatch_order_keeps_label:
  "dispatch_order e config oid r s = (x, r', s') \<Longrightarrow>
     order_emergency r' = order_emergency r \<and> is_emergency r' = is_emergency r \<and>
     order_normalized_query r' = order_normalized_query r"
  by (auto simp: dispatch_order_def Let_def split: prod.splits sum.splits if_splits option.splits)

lemma classify_order_labelled:
  "classify_order e config client r s = (x, r', s') \<Longrightarrow> is_use_emergency_classification config \<Longrightarrow>
     labelled e r \<Longrightarrow> labelled e r'"
  by (auto simp: classify_order_def Let_def labelled_def split: prod.splits sum.splits option.splits)

lemma try_labelled:
  assumes "get_emergency_class_try e body client r s = (x, r', s')"
      and "get_default_config e client = Some config" "is_use_emergency_classification config"
      and "labelled e r"
  shows "labelled e r'"
proof (cases "check_request e body client s")
  case (Inl err) with assms show ?thesis by (simp add: get_emergency_class_try_def)
next
  case (Inr config')
  with assms(2) have c: "config' = config" using check_request_config by fastforce
  obtain x1 r1 s1 where ro: "read_order e config (orderId body) r s = (x1, r1, s1)"
    by (cases "read_order e config (orderId body) r s") auto
  obtain x2 r2 s2 where co: "classify_order e config client r1 s1 = (x2, r2, s2)"
    by (cases "classify_order e config client r1 s1") auto
  have l1: "labelled e r1" using read_order_keeps_label [OF ro] assms(4) by (simp add: labelled_def split: option.splits)
  have l2: "labelled e r2" by (rule classify_order_labelled [OF co assms(3) l1])
  show ?thesis
    using assms(1) Inr c ro co l1 l2 dispatch_order_keeps_label [of e config "orderId body" r2 s2 x r' s']
    by (auto simp: get_emergency_class_try_def labelled_def split: option.splits)
qed

lemma get_emergency_class_labelled:
  assumes "get_default_config e client = Some config" "is_use_emergency_classification config"
  shows "labelled e (fst (get_emergency_class e body client s))"
proof -
  obtain x r0 s0 where t: "get_emergency_class_try e body client (new_record body) s = (x, r0, s0)"
    by (cases "get_emergency_class_try e body client (new_record body) s") auto
  have "labelled e (new_record body)" by (simp add: labelled_def new_record_def)
  from try_labelled [OF t assms this] show ?thesis
    by (cases x)
       (simp_all add: get_emergency_class_def t save_order_classification_record_def Let_def
                      labelled_def split: option.splits)
qed

lemma classified_run:
  assumes gates: "check_request e body client s = Inr config"
      and on: "is_use_emergency_classification config"
      and ro: "read_order e config (orderId body) (new_record body) s = (None, r1, s1)"
      and q: "order_query r1 = Some query"
  shows "order_normalized_query (fst (get_emergency_class e body client s)) =
           Some (normalize_resident_request_string query) \<and>
         (case get_order_emergency (recursion_limit e) e (emergency_prompt config) client
                 (normalize_resident_request_string query) s1 of
            (Inr label, s2) \<Rightarrow>
              order_emergency (fst (get_emergency_class e body client s)) = Some label \<and>
              is_emergency (fst (get_emergency_class e body client s)) =
                Some (strip (lower e label) = EMERGENCY_LABEL)
          | (Inl x, s2) \<Rightarrow>
              order_emergency (fst (get_emergency_class e body client s)) = None \<and>
              is_emergency (fst (get_emergency_class e body client s)) = None \<and>
              is_error (fst (get_emergency_class e body client s)) \<and>
              comment (fst (get_emergency_class e body client s)) = Some (error_comment x))"
proof -
  let ?nq = "normalize_resident_request_string query"
  let ?r1 = "r1\<lparr>order_normalized_query := Some ?nq\<rparr>"
  have k1: "order_emergency r1 = None" "is_emergency r1 = None"
    using read_order_keeps_label [OF ro] by (simp_all add: new_record_def)
  obtain res s2 where eng: "get_order_emergency (recursion_limit e) e (emergency_prompt config)
                              client ?nq s1 = (res, s2)"
    by (cases "get_order_emergency (recursion_limit e) e (emergency_prompt config) client ?nq s1")
       auto
  show ?thesis
  proof (cases res)
    case (Inl x)
    have "classify_order e config client r1 s1 = (Some x, ?r1, s2)"
      using on q eng Inl by (simp add: classify_order_def)
    then have "get_emergency_class e body client s =
        save_order_classification_record
          (?r1\<lparr>is_error := True, comment := Some (error_comment x)\<rparr>) client s2"
      using gates ro by (simp add: get_emergency_class_def get_emergency_class_try_def)
    then show ?thesis using k1 eng Inl by (simp add: save_returns)
  next
    case (Inr label)
    let ?r2 = "?r1\<lparr>order_emergency := Some label,
                   is_emergency := Some (strip (lower e label) = EMERGENCY_LABEL)\<rparr>"
    have "classify_order e config client r1 s1 = (None, ?r2, s2)"
      using on q eng Inr by (simp add: classify_order_def)
    then have body_eq: "get_emergency_class_try e body client (new_record body) s =
                          dispatch_order e config (orderId body) ?r2 s2"
      using gates ro by (simp add: get_emergency_class_try_def)
    obtain x3 r3 s3 where d: "dispatch_order e config (orderId body) ?r2 s2 = (x3, r3, s3)"
      by (cases "dispatch_order e config (orderId body) ?r2 s2") auto
    have k3: "order_emergency r3 = Some label"
             "is_emergency r3 = Some (strip (lower e label) = EMERGENCY_LABEL)"
             "order_normalized_query r3 = Some ?nq"
      using dispatch_order_keeps_label [OF d] by simp_all
    have "order_emergency (fst (get_emergency_class e body client s)) = order_emergency r3 \<and>
          is_emergency (fst (get_emergency_class e body client s)) = is_emergency r3 \<and>
          order_normalized_query (fst (get_emergency_class e body client s)) =
            order_normalized_query r3"
      by (cases x3) (simp_all add: get_emergency_class_def body_eq d save_returns)
    then show ?thesis using k3 eng Inr by simp
  qed
qed

text \<open>
  Claim C5. With classification switched on in the tenant's config, the emergency flag of
  the record is a function of the classifier's answer alone. In a run that passes the gates
  and reads the order, the engine is asked about the normalized comment; when it answers,
  the answer is recorded as it is and the flag is set, true if and only if the answer, put
  in lower case and then stripped of surrounding whitespace, equals the label of an
  emergency, and false for every other answer; when it raises, no answer is recorded and
  the flag stays unset. In every run the flag is unset exactly when no answer is recorded.
\<close>

theorem is_emergency_compares_label:
  "(get_default_config e client = Some config \<and> is_use_emergency_classification config \<longrightarrow>
      (case order_emergency (fst (get_emergency_class e body client s)) of
         None \<Rightarrow> is_emergency (fst (get_emergency_class e body client s)) = None
       | Some label \<Rightarrow>
           is_emergency (fst (get_emergency_class e body client s)) =
             Some (strip (lower e label) = EMERGENCY_LABEL))) \<and>
   (check_request e body client s = Inr config \<and> is_use_emergency_classification config \<and>
    read_order e config (orderId body) (new_record body) s = (None, r1, s1) \<and>
    order_query r1 = Some query \<longrightarrow>
      order_normalized_query (fst (get_emergency_class e body client s)) =
        Some (normalize_resident_request_string query) \<and>
      (case get_order_emergency (recursion_limit e) e (emergency_prompt config) client
              (normalize_resident_request_string query) s1 of
         (Inr label, s2) \<Rightarrow>
           order_emergency (fst (get_emergency_class e body client s)) = Some label \<and>
           is_emergency (fst (get_emergency_class e body client s)) =
             Some (strip (lower e label) = EMERGENCY_LABEL)
       | (Inl x, s2) \<Rightarrow>
           order_emergency (fst (get_emergency_class e body client s)) = None \<and>
           is_emergency (fst (get_emergency_class e body client s)) = None \<and>
           is_error (fst (get_emergency_class e body client s)) \<and>
           comment (fst (get_emergency_class e body client s)) = Some (error_comment x)))"
  using get_emergency_class_labelled [of e client config body s]
    classified_run [of e body client s config r1 s1 query]
  by (simp add: labelled_def)

lemma disabled_run:
  assumes cfg: "get_default_config e client = Some config"
      and off: "\<not> is_use_emergency_classification config"
  shows "is_emergency (fst (get_emergency_class e body client s)) = None \<and>
         filter is_update (new_events s (snd (get_emergency_class e body client s))) = [] \<and>
         filter is_chain_run (new_events s (snd (get_emergency_class e body client s))) = [] \<and>
         (if is_error (fst (get_emergency_class e body client s))
          then order_emergency (fst (get_emergency_class e body client s)) = None
          else order_emergency (fst (get_emergency_class e body client s)) =
                 Some (disabled_field_msg (user_id config)))"
proof (cases "check_request e body client s")
  case (Inl x)
  from gate_failure [OF Inl] show ?thesis
    by (simp add: new_events_only_save)
       (simp add: save_order_classification_record_def Let_def new_record_def)
next
  case (Inr config')
  with cfg have c: "config' = config" using check_request_config by fastforce
  let ?P = "\<lambda>ev. \<not> is_update ev \<and> \<not> is_chain_run ev"
  obtain x1 r1 s1 where ro: "read_order e config (orderId body) (new_record body) s = (x1, r1, s1)"
    by (cases "read_order e config (orderId body) (new_record body) s") auto
  have g: "grows ?P s s1"
    using read_order_emits [of ?P "orderId body" s e config "new_record body"] ro by simp
  then have ne: "filter is_update (new_events s s1) = []" "filter is_chain_run (new_events s s1) = []"
    by (auto simp: grows_def new_events_def list_all_iff filter_empty_conv)
  have k: "order_emergency r1 = None" "is_emergency r1 = None" "is_error r1 = False"
    using read_order_keeps_label [OF ro] read_order_keeps [OF ro] by (simp_all add: new_record_def)
  show ?thesis
  proof (cases x1)
    case (Some x)
    then have "get_emergency_class e body client s =
        save_order_classification_record (r1\<lparr>is_error := True, comment := Some (error_comment x)\<rparr>) client s1"
      using Inr c ro by (simp add: get_emergency_class_def get_emergency_class_try_def)
    then show ?thesis
      using k ne by (simp add: new_events_save [OF g]) (simp add: save_order_classification_record_def Let_def)
  next
    case None
    let ?r2 = "r1\<lparr>order_emergency := Some (disabled_field_msg (user_id config)), is_emergency := None\<rparr>"
    have "get_emergency_class e body client s = save_order_classification_record ?r2 client s1"
      using Inr c ro None off
      by (simp add: get_emergency_class_def get_emergency_class_try_def classify_order_def
                    dispatch_order_def)
    then show ?thesis
      using k ne by (simp add: new_events_save [OF g]) (simp add: save_order_classification_record_def Let_def)
  qed
qed

text \<open>
  Claim C8, as the code has it. With classification switched off in the tenant's config the
  emergency flag of the record is never set, the classifier is never called, and neither the
  status of the order is updated nor a chat message posted. The emergency field holds the
  marker of the skipped step exactly in the runs that come back without the error flag; a
  run that fails before that step (the order is already in the history, its status is not
  pending, or it cannot be fetched) leaves the field unset.
\<close>

theorem disabled_classification_skips:
  "get_default_config e client = Some config \<and> \<not> is_use_emergency_classification config \<longrightarrow>
   is_emergency (fst (get_emergency_class e body client s)) = None \<and>
   filter is_update (new_events s (snd (get_emergency_class e body client s))) = [] \<and>
   filter is_chain_run (new_events s (snd (get_emergency_class e body client s))) = [] \<and>
   (if is_error (fst (get_emergency_class e body client s))
    then order_emergency (fst (get_emergency_class e body client s)) = None
    else order_emergency (fst (get_emergency_class e body client s)) =
           Some (disabled_field_msg (user_id config)))"
  using disabled_run [of e client config body s] by blast

theorem disabled_classification_skips_witness:
  "is_emergency (fst (get_emergency_class
      (demo_env\<lparr>get_default_config :=
                   (\<lambda>c. Some (demo_config\<lparr>is_use_emergency_classification := False\<rparr>))\<rparr>)
      demo_request (ascii ''vysota'') empty_state)) = None \<and>
   order_emergency (fst (get_emergency_class
      (demo_env\<lparr>get_default_config :=
                   (\<lambda>c. Some (demo_config\<lparr>is_use_emergency_classification := False\<rparr>))\<rparr>)
      demo_request (ascii ''vysota'') empty_state)) =
     Some (disabled_field_msg (user_id demo_config))"
proof -
  let ?e = "demo_env\<lparr>get_default_config :=
                   (\<lambda>c. Some (demo_config\<lparr>is_use_emergency_classification := False\<rparr>))\<rparr>"
  have a: "get_default_config ?e (ascii ''vysota'') =
             Some (demo_config\<lparr>is_use_emergency_classification := False\<rparr>)"
    by simp
  have b: "\<not> is_use_emergency_classification (demo_config\<lparr>is_use_emergency_classification := False\<rparr>)"
    by simp
  have c: "\<not> is_error (fst (get_emergency_class ?e demo_request (ascii ''vysota'') empty_state))"
    by (simp add: pipeline_defs example_defs)
  from disabled_classification_skips [of ?e "ascii ''vysota''"
      "demo_config\<lparr>is_use_emergency_classification := False\<rparr>" demo_request empty_state] a b c
  show ?thesis by simp
qed

text \<open>
  The claim as stated fails for a run whose fetch of the order fails: classification is off
  and the emergency field of the record is unset, not the marker.
\<close>

theorem disabled_run_without_marker:
  "get_default_config failing_fetch_env (ascii ''vysota'') =
     Some (demo_config\<lparr>is_use_emergency_classification := False\<rparr>) \<and>
   \<not> is_use_emergency_classification (demo_config\<lparr>is_use_emergency_classification := False\<rparr>) \<and>
   order_emergency (fst (get_emergency_class failing_fetch_env demo_request (ascii ''vysota'')
                           empty_state)) = None"
  by (simp add: pipeline_defs example_defs failing_fetch_env_def)

lemma read_order_keeps_update:
  "read_order e config oid r s = (x, r', s') \<Longrightarrow>
     order_update_request r' = order_update_request r \<and>
     order_update_response r' = order_update_response r \<and> uds_id r' = uds_id r"
  by (auto simp: read_order_def Let_def split: prod.splits sum.splits if_splits)

lemma classify_order_keeps_update:
  "classify_order e config client r s = (x, r', s') \<Longrightarrow>
     order_update_request r' = order_update_request r \<and>
     order_update_response r' = order_update_response r \<and> uds_id r' = uds_id r \<and>
     order_address r' = order_address r"
  by (auto simp: classify_order_def Let_def split: prod.splits sum.splits if_splits option.splits)

lemma classify_order_failed:
  "classify_order e config client r s = (Some x, r', s') \<Longrightarrow> is_emergency r' = is_emergency r"
  by (auto simp: classify_order_def Let_def split: prod.splits sum.splits if_splits option.splits)

lemma read_order_address:
  "read_order e config oid r s = (None, r', s') \<Longrightarrow> is_use_emergency_classification config \<Longrightarrow>
     \<exists>address. order_address r' = Some address"
  by (auto simp: read_order_def Let_def split: prod.splits sum.splits if_splits)
     (metis missing_or_blank.elims(3))+

lemma no_updating_run:
  assumes cfg: "get_default_config e client = Some config"
      and on: "is_use_emergency_classification config"
      and noupd: "\<not> is_use_order_updating config"
      and em: "is_emergency (fst (get_emergency_class e body client s)) = Some True"
  shows "filter is_update (new_events s (snd (get_emergency_class e body client s))) = [] \<and>
         (case order_address (fst (get_emergency_class e body client s)) of
            None \<Rightarrow> False
          | Some address \<Rightarrow>
              uds_id (fst (get_emergency_class e body client s)) =
                Some (str_opt_int_list (get_responsible_users_ids_by_order_address e address)) \<and>
              (case get_responsible_users_ids_by_order_address e address of
                 Some ids \<Rightarrow>
                   \<not> is_error (fst (get_emergency_class e body client s)) \<and>
                   order_update_request (fst (get_emergency_class e body client s)) =
                     Some (skipped_marker config) \<and>
                   order_update_response (fst (get_emergency_class e body client s)) =
                     Some (skipped_marker config)
               | None \<Rightarrow>
                   is_error (fst (get_emergency_class e body client s)) \<and>
                   comment (fst (get_emergency_class e body client s)) =
                     Some (no_unit_detail (orderId body) address) \<and>
                   order_update_request (fst (get_emergency_class e body client s)) = None \<and>
                   order_update_response (fst (get_emergency_class e body client s)) = None))"
proof (cases "check_request e body client s")
  case (Inl x)
  from gate_failure [OF Inl] em show ?thesis
    by (simp add: save_order_classification_record_def Let_def new_record_def)
next
  case (Inr config')
  with cfg have c: "config' = config" using check_request_config by fastforce
  obtain x1 r1 s1 where ro: "read_order e config (orderId body) (new_record body) s = (x1, r1, s1)"
    by (cases "read_order e config (orderId body) (new_record body) s") auto
  have g1: "grows quiet s s1" using read_order_grows [of s e config "orderId body" "new_record body"] ro by simp
  have k1: "is_emergency r1 = None" "is_error r1 = False" "order_update_request r1 = None"
           "order_update_response r1 = None"
    using read_order_keeps_label [OF ro] read_order_keeps [OF ro] read_order_keeps_update [OF ro]
    by (simp_all add: new_record_def)
  show ?thesis
  proof (cases x1)
    case (Some x)
    then have "get_emergency_class e body client s =
        save_order_classification_record (r1\<lparr>is_error := True, comment := Some (error_comment x)\<rparr>) client s1"
      using Inr c ro by (simp add: get_emergency_class_def get_emergency_class_try_def)
    with em k1 show ?thesis by (simp add: save_order_classification_record_def Let_def)
  next
    case None
    from read_order_address [OF ro [unfolded None] on] obtain address where a1: "order_address r1 = Some address"
      by blast
    obtain x2 r2 s2 where co: "classify_order e config client r1 s1 = (x2, r2, s2)"
      by (cases "classify_order e config client r1 s1") auto
    have g2: "grows quiet s s2"
      using classify_order_grows [of s1 e config client r1] co g1 by (auto intro: grows_trans)
    have k2: "is_error r2 = False" "order_update_request r2 = None" "order_update_response r2 = None"
             "order_address r2 = Some address"
      using classify_order_keeps [OF co] classify_order_keeps_update [OF co] k1 a1 by simp_all
    show ?thesis
    proof (cases x2)
      case (Some x)
      then have "get_emergency_class e body client s =
          save_order_classification_record (r2\<lparr>is_error := True, comment := Some (error_comment x)\<rparr>) client s2"
        using Inr c ro None co by (simp add: get_emergency_class_def get_emergency_class_try_def)
      with em k1 classify_order_failed [OF co [unfolded Some]] show ?thesis
        by (simp add: save_order_classification_record_def Let_def)
    next
      case n2: None
      have body_eq: "get_emergency_class_try e body client (new_record body) s =
                   dispatch_order e config (orderId body) r2 s2"
        using Inr c ro None co n2 by (simp add: get_emergency_class_try_def)
      obtain x3 r3 s3 where d: "dispatch_order e config (orderId body) r2 s2 = (x3, r3, s3)"
        by (cases "dispatch_order e config (orderId body) r2 s2") auto
      have s3: "s3 = s2" using dispatch_order_quiet [OF _ d] noupd by simp
      have e3: "is_emergency r3 = is_emergency r2" using dispatch_order_keeps_label [OF d] by simp
      have "is_emergency (fst (get_emergency_class e body client s)) = is_emergency r3"
        by (cases x3) (simp_all add: get_emergency_class_def body_eq d save_order_classification_record_def Let_def)
      with em e3 have em2: "is_emergency r2 = Some True" by simp
      have ne: "filter is_update (new_events s s2) = []"
        using g2 by (auto simp: grows_def new_events_def list_all_iff filter_empty_conv quiet_def)
      show ?thesis
      proof (cases "get_responsible_users_ids_by_order_address e address")
        case None
        have "dispatch_order e config (orderId body) r2 s2 =
                (Some (HTTPException 501 (no_unit_detail (orderId body) address)),
                 r2\<lparr>uds_id := Some (str_opt_int_list None)\<rparr>, s2)"
          using em2 on k2 None by (simp add: dispatch_order_def no_unit_detail_def)
        then have "get_emergency_class e body client s =
            save_order_classification_record
              (r2\<lparr>uds_id := Some (str_opt_int_list None), is_error := True,
                  comment := Some (no_unit_detail (orderId body) address)\<rparr>) client s2"
          by (simp add: get_emergency_class_def body_eq)
        then show ?thesis
          using k2 None ne
          by (simp add: new_events_save [OF g2]) (simp add: save_order_classification_record_def Let_def)
      next
        case (Some ids)
        have "dispatch_order e config (orderId body) r2 s2 =
                (None,
                 r2\<lparr>uds_id := Some (str_opt_int_list (Some ids)),
                    order_update_request := Some (skipped_marker config),
                    order_update_response := Some (skipped_marker config)\<rparr>, s2)"
          using em2 on k2 Some noupd by (simp add: dispatch_order_def skipped_marker_def)
        then have "get_emergency_class e body client s =
            save_order_classification_record
              (r2\<lparr>uds_id := Some (str_opt_int_list (Some ids)),
                    order_update_request := Some (skipped_marker config),
                    order_update_response := Some (skipped_marker config)\<rparr>) client s2"
          by (simp add: get_emergency_class_def body_eq)
        then show ?thesis
          using k2 Some ne
          by (simp add: new_events_save [OF g2]) (simp add: save_order_classification_record_def Let_def)
      qed
    qed
  qed
qed

text \<open>
  Claim C9, as the code has it. With classification on, order updating off and a run whose
  record is flagged as an emergency, no call updates the status of the order or posts a
  chat message, and the result of the resolver on the order's address is recorded as the
  unit. When a unit matches the address the markers of the skipped update are recorded as
  request and response and the run succeeds; when none matches the recorded unit is the
  text \<^verbatim>\<open>None\<close>, the run fails with the detail of the missing unit, and no marker is
  recorded.
\<close>

theorem no_updating_records_marker:
  "get_default_config e client = Some config \<and> is_use_emergency_classification config \<and>
   \<not> is_use_order_updating config \<and>
   is_emergency (fst (get_emergency_class e body client s)) = Some True \<longrightarrow>
   filter is_update (new_events s (snd (get_emergency_class e body client s))) = [] \<and>
   (case order_address (fst (get_emergency_class e body client s)) of
      None \<Rightarrow> False
    | Some address \<Rightarrow>
        uds_id (fst (get_emergency_class e body client s)) =
          Some (str_opt_int_list (get_responsible_users_ids_by_order_address e address)) \<and>
        (case get_responsible_users_ids_by_order_address e address of
           Some ids \<Rightarrow>
             \<not> is_error (fst (get_emergency_class e body client s)) \<and>
             order_update_request (fst (get_emergency_class e body client s)) =
               Some (skipped_marker config) \<and>
             order_update_response (fst (get_emergency_class e body client s)) =
               Some (skipped_marker config)
         | None \<Rightarrow>
             is_error (fst (get_emergency_class e body client s)) \<and>
             comment (fst (get_emergency_class e body client s)) =
               Some (no_unit_detail (orderId body) address) \<and>
             order_update_request (fst (get_emergency_class e body client s)) = None \<and>
             order_update_response (fst (get_emergency_class e body client s)) = None))"
  using no_updating_run [of e client config body s] by blast

lemma no_updating_example:
  "is_emergency (fst (get_emergency_class no_updating_env demo_request (ascii ''vysota'') empty_state)) =
     Some True"
  "order_address (fst (get_emergency_class no_updating_env demo_request (ascii ''vysota'') empty_state)) =
     Some [1091, 1083, 46, 32, 1051, 1077, 1085, 1080, 1085, 1072, 32, 53]"
  "get_responsible_users_ids_by_order_address no_updating_env
     [1091, 1083, 46, 32, 1051, 1077, 1085, 1080, 1085, 1072, 32, 53] = Some [7]"
  by (simp_all add: pipeline_defs example_defs no_updating_env_def normalizer_eval
                    get_order_emergency_unfold)

theorem no_updating_records_marker_witness:
  "filter is_update (new_events empty_state
      (snd (get_emergency_class no_updating_env demo_request (ascii ''vysota'') empty_state))) = [] \<and>
   uds_id (fst (get_emergency_class no_updating_env demo_request (ascii ''vysota'') empty_state)) =
     Some (str_opt_int_list (Some [7])) \<and>
   order_update_request (fst (get_emergency_class no_updating_env demo_request (ascii ''vysota'')
                                empty_state)) =
     Some (skipped_marker (demo_config\<lparr>is_use_order_updating := False\<rparr>))"
proof -
  have a: "get_default_config no_updating_env (ascii ''vysota'') =
             Some (demo_config\<lparr>is_use_order_updating := False\<rparr>)"
    by (simp add: no_updating_env_def)
  have b: "is_use_emergency_classification (demo_config\<lparr>is_use_order_updating := False\<rparr>)"
          "\<not> is_use_order_updating (demo_config\<lparr>is_use_order_updating := False\<rparr>)"
    by (simp_all add: demo_config_def)
  from no_updating_records_marker [of no_updating_env "ascii ''vysota''"
      "demo_config\<lparr>is_use_order_updating := False\<rparr>" demo_request empty_state]
    a b no_updating_example
  show ?thesis by simp
qed

text \<open>
  The claim as stated fails when no unit is configured for the address: the classifier's
  answer is affirmative, yet no unit is recorded and the update fields stay unset.
\<close>

theorem no_unit_no_marker:
  "get_default_config (no_updating_env\<lparr>RESPONSIBLE_UDS_LIST := []\<rparr>) (ascii ''vysota'') =
     Some (demo_config\<lparr>is_use_order_updating := False\<rparr>) \<and>
   is_emergency (fst (get_emergency_class (no_updating_env\<lparr>RESPONSIBLE_UDS_LIST := []\<rparr>)
                        demo_request (ascii ''vysota'') empty_state)) = Some True \<and>
   uds_id (fst (get_emergency_class (no_updating_env\<lparr>RESPONSIBLE_UDS_LIST := []\<rparr>)
                  demo_request (ascii ''vysota'') empty_state)) = Some (ascii ''None'') \<and>
   order_update_request (fst (get_emergency_class (no_updating_env\<lparr>RESPONSIBLE_UDS_LIST := []\<rparr>)
                                demo_request (ascii ''vysota'') empty_state)) = None \<and>
   order_update_response (fst (get_emergency_class (no_updating_env\<lparr>RESPONSIBLE_UDS_LIST := []\<rparr>)
                                 demo_request (ascii ''vysota'') empty_state)) = None"
  by (simp add: pipeline_defs example_defs no_updating_env_def normalizer_eval
                get_order_emergency_unfold)

theorem is_emergency_compares_label_witness:
  "order_emergency (fst (get_emergency_class demo_env demo_request (ascii ''vysota'') empty_state)) =
     Some [1040, 1074, 1072, 1088, 1080, 1081, 1085, 1072, 1103, 32] \<and>
   is_emergency (fst (get_emergency_class demo_env demo_request (ascii ''vysota'') empty_state)) =
     Some True"
proof -
  let ?c = "ascii ''vysota''"
  let ?ro = "read_order demo_env demo_config (orderId demo_request) (new_record demo_request)
               empty_state"
  let ?q = "[1058, 1088, 1091, 1073, 1072, 32, 1090, 1077, 1095, 1077, 1090, 44, 32,
             1089, 1088, 1086, 1095, 1085, 1086, 33] :: ustring"
  let ?label = "[1040, 1074, 1072, 1088, 1080, 1081, 1085, 1072, 1103, 32] :: ustring"
  let ?eng = "get_order_emergency (recursion_limit demo_env) demo_env (emergency_prompt demo_config)
                ?c (normalize_resident_request_string ?q) (snd (snd ?ro))"
  note ev = pipeline_defs example_defs normalizer_eval get_order_emergency_unfold
  have gates: "check_request demo_env demo_request ?c empty_state = Inr demo_config"
    by (simp add: ev)
  have on: "is_use_emergency_classification demo_config" by (simp add: demo_config_def)
  have "fst ?ro = None" by (simp add: ev)
  then have ro: "?ro = (None, fst (snd ?ro), snd (snd ?ro))" by (simp add: prod_eq_iff)
  have q: "order_query (fst (snd ?ro)) = Some ?q" by (simp add: ev)
  have "fst ?eng = Inr ?label" by (simp add: ev)
  then have eng: "?eng = (Inr ?label, snd ?eng)" by (simp add: prod_eq_iff)
  have d: "strip (lower demo_env ?label) = EMERGENCY_LABEL"
    by (simp add: strip_def demo_env_def simple_lower_def EMERGENCY_LABEL_def is_space_def)
  note classified =
    is_emergency_compares_label [of demo_env ?c demo_config demo_request empty_state
      "fst (snd ?ro)" "snd (snd ?ro)" ?q, THEN conjunct2, THEN mp, THEN conjunct2]
  have "case ?eng of
          (Inr label, s2) \<Rightarrow>
            order_emergency (fst (get_emergency_class demo_env demo_request ?c empty_state)) =
              Some label \<and>
            is_emergency (fst (get_emergency_class demo_env demo_request ?c empty_state)) =
              Some (strip (lower demo_env label) = EMERGENCY_LABEL)
        | (Inl x, s2) \<Rightarrow>
            order_emergency (fst (get_emergency_class demo_env demo_request ?c empty_state)) = None \<and>
            is_emergency (fst (get_emergency_class demo_env demo_request ?c empty_state)) = None \<and>
            is_error (fst (get_emergency_class demo_env demo_request ?c empty_state)) \<and>
            comment (fst (get_emergency_class demo_env demo_request ?c empty_state)) =
              Some (error_comment x)"
    by (rule classified) (intro conjI gates on ro q)
  then show ?thesis by (subst (asm) eng) (simp add: d)
qed

lemma update_order_status_trace:
  assumes "update_order_status_details e oid d st us ins s = (Inr (response, request_body), s')"
  shows "\<exists>tok. trace s' = trace s @ [POST_auth, PUT_order_status oid tok request_body]"
proof -
  obtain a s1 where a: "get_auth_token e s = (a, s1)" by (cases "get_auth_token e s") auto
  then have s1: "s1 = emit POST_auth s" using get_auth_token_state [of e s] by simp
  show ?thesis
    using assms
    by (cases a)
       (auto simp: update_order_status_details_def a s1 Let_def emit_def
             split: reply.splits sum.splits if_splits)
qed

text \<open>
  Claim C10. In a run with classification and order updating on that passes the gates,
  reads the order, classifies it as an emergency and finds a responsible unit: when the
  update of the order's status returns and the post of the chat message that follows raises,
  the stored record has the error flag and the exception's text as its comment while its
  update request and response are unset, although the request was sent to the
  order-management system during the run.
\<close>

theorem chat_failure_loses_update_audit:
  assumes gates: "check_request e body client s = Inr config"
      and on: "is_use_emergency_classification config" "is_use_order_updating config"
      and ro: "read_order e config (orderId body) (new_record body) s = (None, r1, s1)"
      and co: "classify_order e config client r1 s1 = (None, r2, s2)"
      and em: "is_emergency r2 = Some True"
      and addr: "order_address r2 = Some address"
      and unit: "get_responsible_users_ids_by_order_address e address = Some ids"
      and upd: "update_order_status_details e (orderId body) RESPONSIBLE_DEPT_ID (IN_PROGRESS e)
                  ids [AI_USER_ID] s2 = (Inr (response, request_body), s3)"
      and chat: "send_message_to_internal_chat e (orderId body) ORDER_PROCESSED_BY_AI_MESSAGE s3 =
                  (Inl x, s4)"
  shows "is_error (fst (get_emergency_class e body client s)) \<and>
         comment (fst (get_emergency_class e body client s)) = Some (error_comment x) \<and>
         order_update_request (fst (get_emergency_class e body client s)) = None \<and>
         order_update_response (fst (get_emergency_class e body client s)) = None \<and>
         history (snd (get_emergency_class e body client s)) =
           history s @ [(client, fst (get_emergency_class e body client s))] \<and>
         (\<exists>tok. PUT_order_status (orderId body) tok request_body \<in>
                  set (new_events s (snd (get_emergency_class e body client s))))"
proof -
  let ?r3 = "r2\<lparr>uds_id := Some (str_opt_int_list (Some ids))\<rparr>"
  have k: "order_update_request r2 = None" "order_update_response r2 = None"
    using read_order_keeps_update [OF ro] classify_order_keeps_update [OF co]
    by (simp_all add: new_record_def)
  have d: "dispatch_order e config (orderId body) r2 s2 = (Some x, ?r3, s4)"
    using on em addr unit upd chat by (simp add: dispatch_order_def)
  have run: "get_emergency_class e body client s =
          save_order_classification_record
            (?r3\<lparr>is_error := True, comment := Some (error_comment x)\<rparr>) client s4"
    using gates ro co d by (simp add: get_emergency_class_def get_emergency_class_try_def)
  have g1: "grows (\<lambda>ev. True) s s1"
    using read_order_emits [of "\<lambda>ev. True" "orderId body" s e config "new_record body"] ro by simp
  have g2: "grows (\<lambda>ev. True) s1 s2"
    using classify_order_grows [of s1 e config client r1] co
    by (auto intro: grows_mono)
  from update_order_status_trace [OF upd] obtain tok
    where t3: "trace s3 = trace s2 @ [POST_auth, PUT_order_status (orderId body) tok request_body]"
    by blast
  have g4: "grows (\<lambda>ev. True) s3 s4"
    using send_message_grows [of "\<lambda>ev. True" s3 e "orderId body" ORDER_PROCESSED_BY_AI_MESSAGE] chat
    by simp
  have h: "history s4 = history s"
    using dispatch_order_grows [of s2 e config "orderId body" r2] d g1 g2 by (simp add: grows_def)
  from g1 g2 g4 t3 have "\<exists>pre post. trace s4 =
      trace s @ pre @ PUT_order_status (orderId body) tok request_body # post"
    by (auto simp: grows_def) (metis append.assoc append_Cons append_Nil)
  then obtain pre post where
    t4: "trace s4 = trace s @ pre @ PUT_order_status (orderId body) tok request_body # post"
    by blast
  have put: "PUT_order_status (orderId body) tok request_body \<in>
               set (new_events s (snd (get_emergency_class e body client s)))"
    by (simp add: run new_events_def save_order_classification_record_def Let_def t4)
  have oid: "order_id r2 = orderId body"
    using read_order_keeps [OF ro] classify_order_keeps [OF co] by (simp add: new_record_def)
  have "get_saved_record_by_order_id (orderId body) client s4 = None"
    using check_request_no_record [OF gates] by (simp add: get_saved_record_by_order_id_def h)
  then have hist: "history (snd (get_emergency_class e body client s)) =
                     history s @ [(client, fst (get_emergency_class e body client s))]"
    unfolding run
    using save_inserts [of "?r3\<lparr>is_error := True, comment := Some (error_comment x)\<rparr>" client s4]
    by (simp add: oid h)
  show ?thesis
    using k put hist by (auto simp: run save_returns)
qed

theorem chat_failure_loses_update_audit_witness:
  "is_error (fst (get_emergency_class failing_chat_env demo_request (ascii ''vysota'') empty_state)) \<and>
   order_update_request
     (fst (get_emergency_class failing_chat_env demo_request (ascii ''vysota'') empty_state)) = None \<and>
   order_update_response
     (fst (get_emergency_class failing_chat_env demo_request (ascii ''vysota'') empty_state)) = None \<and>
   (\<exists>tok request_body. PUT_order_status 42 tok request_body \<in>
      set (new_events empty_state
             (snd (get_emergency_class failing_chat_env demo_request (ascii ''vysota'') empty_state))))"
proof -
  let ?e = failing_chat_env
  let ?c = "ascii ''vysota''"
  let ?ro = "read_order ?e demo_config (orderId demo_request) (new_record demo_request) empty_state"
  let ?r1 = "fst (snd ?ro)" and ?s1 = "snd (snd ?ro)"
  let ?co = "classify_order ?e demo_config ?c ?r1 ?s1"
  let ?r2 = "fst (snd ?co)" and ?s2 = "snd (snd ?co)"
  let ?addr = "[1091, 1083, 46, 32, 1051, 1077, 1085, 1080, 1085, 1072, 32, 53] :: ustring"
  let ?up = "update_order_status_details ?e (orderId demo_request) RESPONSIBLE_DEPT_ID
               (IN_PROGRESS ?e) [7] [AI_USER_ID] ?s2"
  let ?s3 = "snd ?up"
  let ?ch = "send_message_to_internal_chat ?e (orderId demo_request) ORDER_PROCESSED_BY_AI_MESSAGE ?s3"
  note ev = pipeline_defs example_defs failing_chat_env_def normalizer_eval
    get_order_emergency_unfold
  have gates: "check_request ?e demo_request ?c empty_state = Inr demo_config"
    by (simp add: ev)
  have on: "is_use_emergency_classification demo_config" "is_use_order_updating demo_config"
    by (simp_all add: demo_config_def)
  have "fst ?ro = None" by (simp add: ev)
  then have ro: "?ro = (None, ?r1, ?s1)" by (simp add: prod_eq_iff)
  have "fst ?co = None" by (simp add: ev)
  then have co: "?co = (None, ?r2, ?s2)" by (simp add: prod_eq_iff)
  have em: "is_emergency ?r2 = Some True" by (simp add: ev)
  have addr: "order_address ?r2 = Some ?addr" by (simp add: ev)
  have unit: "get_responsible_users_ids_by_order_address ?e ?addr = Some [7]"
    by (simp add: ev)
  have "fst ?up = Inr (JObj [], JObj
                 [(ascii ''responsibleDeptId'', JInt RESPONSIBLE_DEPT_ID),
                  (ascii ''orderStatusId'', JInt (IN_PROGRESS ?e)),
                  (ascii ''responsibleUserIds'', JList (map JInt [7])),
                  (ascii ''inspectorIds'', JList (map JInt [AI_USER_ID]))])"
    by (simp add: ev)
  then have upd: "?up = (Inr (JObj [], JObj
                 [(ascii ''responsibleDeptId'', JInt RESPONSIBLE_DEPT_ID),
                  (ascii ''orderStatusId'', JInt (IN_PROGRESS ?e)),
                  (ascii ''responsibleUserIds'', JList (map JInt [7])),
                  (ascii ''inspectorIds'', JList (map JInt [AI_USER_ID]))]), ?s3)"
    by (simp add: prod_eq_iff)
  have "fst ?ch = Inl (HTTPException 500 (ascii ''Order internal chat POST: '' @ py_str ?e (JObj [])))"
    by (simp add: ev)
  then have chat: "?ch = (Inl (HTTPException 500
                      (ascii ''Order internal chat POST: '' @ py_str ?e (JObj []))), snd ?ch)"
    by (simp add: prod_eq_iff)
  have oid: "orderId demo_request = 42" by (simp add: demo_request_def)
  from chat_failure_loses_update_audit [OF gates on ro co em addr unit upd chat] show ?thesis
    unfolding oid by blast
qed

end
